theory Spec2Isabelle
  imports Main "HOL-Library.Word"
begin

unbundle bit_operations_syntax

section \<open>Bytes, C integers and strings\<close>

text \<open>
  The archive engine of \<^verbatim>\<open>tinytar.c\<close> works on blocks of 512 bytes. A byte
  (\<^verbatim>\<open>unsigned char\<close>) is an 8-bit word. A C string is the list of its bytes
  before the terminating NUL. The type \<^verbatim>\<open>long\<close> is the 64-bit one of the Linux
  build (\<^verbatim>\<open>gcc\<close>, LP64); it is modelled by \<open>int\<close>, and the wrap-around is written
  out where a value can leave the range: in the octal decoder, whose input length is
  free, and where \<^verbatim>\<open>printf\<close> reads a \<^verbatim>\<open>long\<close> as unsigned. File offsets and
  file sizes are lengths of byte lists and stay in range.
\<close>

type_synonym byte = "8 word"

abbreviation RECORD_SIZE :: nat where
  "RECORD_SIZE \<equiv> 512"

definition bytes_of :: "string \<Rightarrow> byte list" where
  "bytes_of s = map of_char s"

definition long_wrap :: "int \<Rightarrow> int" where
  "long_wrap x = (x + 2 ^ 63) mod 2 ^ 64 - 2 ^ 63"

definition int32_wrap :: "int \<Rightarrow> int" where
  "int32_wrap x = (x + 2 ^ 31) mod 2 ^ 32 - 2 ^ 31"

definition ulong_of :: "int \<Rightarrow> nat" where
  "ulong_of x = nat (x mod 2 ^ 64)"

text \<open>C's \<^verbatim>\<open>/\<close> on signed integers truncates towards zero.\<close>

definition c_div :: "int \<Rightarrow> int \<Rightarrow> int" where
  "c_div a b = sgn a * sgn b * (\<bar>a\<bar> div \<bar>b\<bar>)"

section \<open>Octal field codec\<close>

text \<open>
  \<^verbatim>\<open>octal_to_long(str, len)\<close> (current revision): the loop runs over all \<open>len\<close>
  bytes; a byte in \<^verbatim>\<open>'0'..'7'\<close> is accumulated, any other byte is passed over.
  The list \<open>str\<close> is the buffer from the pointer on; the callers pass 12 or 8 bytes
  that lie inside the 512-byte record.
\<close>

fun octal_loop :: "byte list \<Rightarrow> nat \<Rightarrow> int \<Rightarrow> int" where
  "octal_loop [] len val = val"
| "octal_loop (c # str) len val =
     (if len = 0 then val
      else octal_loop str (len - 1)
        (if 0x30 \<le> c \<and> c \<le> 0x37 then long_wrap (val * 8 + (uint c - 0x30)) else val))"

definition octal_to_long :: "byte list \<Rightarrow> nat \<Rightarrow> int" where
  "octal_to_long str len = octal_loop str len 0"

text \<open>
  \<^verbatim>\<open>octal_to_int32(str, len)\<close> (earlier revision): the loop condition
  \<^verbatim>\<open>i < len && str[i]\<close> ends the loop at a NUL byte; other bytes outside
  \<^verbatim>\<open>'0'..'7'\<close> are passed over. The accumulator is an \<^verbatim>\<open>int32_t\<close>.
\<close>

fun octal_loop32 :: "byte list \<Rightarrow> nat \<Rightarrow> int \<Rightarrow> int" where
  "octal_loop32 [] len val = val"
| "octal_loop32 (c # str) len val =
     (if len = 0 \<or> c = 0 then val
      else octal_loop32 str (len - 1)
        (if 0x30 \<le> c \<and> c \<le> 0x37 then int32_wrap (val * 8 + (uint c - 0x30)) else val))"

definition octal_to_int32 :: "byte list \<Rightarrow> nat \<Rightarrow> int" where
  "octal_to_int32 str len = octal_loop32 str len 0"

text \<open>
  The decoder as the specification words it: accumulate over the leading bytes in
  \<^verbatim>\<open>'0'..'7'\<close> and stop at the first byte that is not an octal digit, or after
  \<open>len\<close> bytes.
\<close>

fun decode_spec_loop :: "byte list \<Rightarrow> nat \<Rightarrow> int \<Rightarrow> int" where
  "decode_spec_loop [] len val = val"
| "decode_spec_loop (c # str) len val =
     (if len = 0 then val
      else if 0x30 \<le> c \<and> c \<le> 0x37
      then decode_spec_loop str (len - 1) (long_wrap (val * 8 + (uint c - 0x30)))
      else val)"

definition decode_spec :: "byte list \<Rightarrow> nat \<Rightarrow> int" where
  "decode_spec str len = decode_spec_loop str len 0"

text \<open>
  \<^verbatim>\<open>long_to_octal(out, size, val)\<close>: \<^verbatim>\<open>snprintf(out, size, "%0*lo", size - 1, val)\<close>
  prints \<open>val\<close>, read as \<^verbatim>\<open>unsigned long\<close>, in octal with at least \<open>size - 1\<close>
  digits, and keeps the first \<open>size - 1\<close> characters; the last byte of the field is NUL
  (\<open>sz\<close> stands for the parameter \<^verbatim>\<open>size\<close>).
\<close>

fun octal_str :: "nat \<Rightarrow> byte list" where
  "octal_str n = (if n < 8 then [0x30 + of_nat n] else octal_str (n div 8) @ [0x30 + of_nat (n mod 8)])"

declare octal_str.simps [simp del]

definition pad_octal :: "nat \<Rightarrow> nat \<Rightarrow> byte list" where
  "pad_octal width n = replicate (width - length (octal_str n)) 0x30 @ octal_str n"

definition long_to_octal :: "nat \<Rightarrow> int \<Rightarrow> byte list" where
  "long_to_octal sz val = take (sz - 1) (pad_octal (sz - 1) (ulong_of val)) @ [0]"

section \<open>Block predicates\<close>

fun all_zero :: "byte list \<Rightarrow> bool" where
  "all_zero [] = True"
| "all_zero (b # block) = (if b \<noteq> 0 then False else all_zero block)"

definition is_block_empty :: "byte list \<Rightarrow> bool" where
  "is_block_empty block = all_zero (take RECORD_SIZE block)"

text \<open>
  \<^verbatim>\<open>strncmp((char *)header + 257, "ustar", 5) == 0\<close>: the five bytes at offset 257
  are those of \<^verbatim>\<open>"ustar"\<close>.
\<close>

definition is_valid_tar_header :: "byte list \<Rightarrow> bool" where
  "is_valid_tar_header header = (take 5 (drop 257 header) = bytes_of ''ustar'')"

section \<open>Streams\<close>

text \<open>
  A \<^verbatim>\<open>FILE *\<close> is the bytes of the open file and the file position.
  \<^verbatim>\<open>fread(record, 1, RECORD_SIZE, fp)\<close> delivers the bytes that are left, at most 512,
  and advances the position by their number; the bytes overwrite the start of the
  global buffer \<^verbatim>\<open>record\<close> (\<open>into_record\<close>). A seek may go beyond the end of the
  file; a seek to a negative position fails and leaves the position where it was.
  \<^verbatim>\<open>fwrite\<close> overwrites and extends the file at the position, filling a gap after
  the old end with zero bytes. Writes are taken to succeed: the program never looks at
  the result of \<^verbatim>\<open>fwrite\<close>.
\<close>

record FILE =
  bytes :: "byte list"
  offset :: nat

definition fread :: "FILE \<Rightarrow> byte list \<times> FILE" where
  "fread fp =
     (let chunk = take RECORD_SIZE (drop (offset fp) (bytes fp))
      in (chunk, fp\<lparr>offset := offset fp + length chunk\<rparr>))"

definition into_record :: "byte list \<Rightarrow> byte list \<Rightarrow> byte list" where
  "into_record chunk rec = chunk @ drop (length chunk) rec"

definition ftell :: "FILE \<Rightarrow> int" where
  "ftell fp = int (offset fp)"

definition fseek_cur :: "int \<Rightarrow> FILE \<Rightarrow> FILE" where
  "fseek_cur off fp =
     (if int (offset fp) + off < 0 then fp else fp\<lparr>offset := nat (int (offset fp) + off)\<rparr>)"

definition fseek_set :: "int \<Rightarrow> FILE \<Rightarrow> FILE" where
  "fseek_set off fp = (if off < 0 then fp else fp\<lparr>offset := nat off\<rparr>)"

definition fwrite :: "byte list \<Rightarrow> FILE \<Rightarrow> FILE" where
  "fwrite bs fp =
     fp\<lparr>bytes := take (offset fp) (bytes fp) @ replicate (offset fp - length (bytes fp)) 0
                 @ bs @ drop (offset fp + length bs) (bytes fp),
        offset := offset fp + length bs\<rparr>"

definition get_file_size :: "FILE \<Rightarrow> int \<times> FILE" where
  "get_file_size f = (int (length (bytes f)), f\<lparr>offset := 0\<rparr>)"

section \<open>The append scan\<close>

text \<open>
  \<^verbatim>\<open>find_append_position\<close>, current revision. One pass of the \<^verbatim>\<open>while\<close> loop,
  entered after a read of a whole block, is \<open>scan_block\<close>: the look-ahead after an
  empty block (\<open>look_ahead\<close>: the second read, and either the return of \<open>zpos\<close> or
  the seek back by one block), then the check of the magic and the skip over the
  content (\<open>scan_entry\<close>), both on the block that is in the buffer at that moment.
\<close>

datatype scan_step = Return int | Continue FILE

datatype look = Confirmed int | False_alarm "byte list" FILE

definition scan_entry :: "byte list \<Rightarrow> FILE \<Rightarrow> scan_step" where
  "scan_entry rec fp =
     (if \<not> is_valid_tar_header rec then Return (- 1)
      else
        let filesize = octal_to_long (drop 124 rec) 12;
            skip = c_div (filesize + 512 - 1) 512 * 512
        in Continue (fseek_cur skip fp))"

definition look_ahead :: "byte list \<Rightarrow> FILE \<Rightarrow> look" where
  "look_ahead rec fp =
     (let zpos = ftell fp - 512 in
      case fread fp of (chunk, fp2) \<Rightarrow>
        if length chunk = RECORD_SIZE \<and> is_block_empty (into_record chunk rec)
        then Confirmed zpos
        else False_alarm (into_record chunk rec) (fseek_cur (- 512) fp2))"

definition scan_block :: "byte list \<Rightarrow> FILE \<Rightarrow> scan_step" where
  "scan_block rec fp =
     (if is_block_empty rec then
        (case look_ahead rec fp of
           Confirmed zpos \<Rightarrow> Return zpos
         | False_alarm rec2 fp3 \<Rightarrow> scan_entry rec2 fp3)
      else scan_entry rec fp)"

function find_append_loop :: "FILE \<Rightarrow> int" where
  "find_append_loop fp =
     (case fread fp of (chunk, fp1) \<Rightarrow>
        if length chunk = RECORD_SIZE then
          (case scan_block chunk fp1 of
             Return r \<Rightarrow> r
           | Continue fp' \<Rightarrow> find_append_loop fp')
        else ftell fp1)"
  by pat_completeness auto

text \<open>
  The loop ends: a pass that goes on leaves the position beyond the block it started
  at. The size field has 12 bytes, so the decoded size is not negative and the seek goes
  forward; after a look-ahead that read less than a block, the buffer can hold the magic
  only if more than 257 bytes were read.
\<close>

lemma long_wrap_id: "- (2 ^ 63) \<le> x \<Longrightarrow> x < 2 ^ 63 \<Longrightarrow> long_wrap x = x"
  by (simp add: long_wrap_def)

lemma digit_range:
  fixes c :: byte
  assumes "0x30 \<le> c" "c \<le> 0x37"
  shows "0 \<le> uint c - 0x30 \<and> uint c - 0x30 \<le> 7"
  using assms by (simp add: word_le_def)

lemma octal_loop_bounds:
  "0 \<le> v \<Longrightarrow> v < 8 ^ k \<Longrightarrow> k + len \<le> 21 \<Longrightarrow>
     0 \<le> octal_loop str len v \<and> octal_loop str len v < 8 ^ (k + len)"
proof (induction str arbitrary: len v k)
  case Nil
  have "(8::int) ^ k \<le> 8 ^ (k + len)" by (intro power_increasing) auto
  then have "v < 8 ^ (k + len)" using Nil(2) by linarith
  then show ?case using Nil(1) by simp
next
  case (Cons c str)
  show ?case
  proof (cases len)
    case 0
    then show ?thesis using Cons(2,3) by simp
  next
    case (Suc m)
    let ?v = "if 0x30 \<le> c \<and> c \<le> 0x37 then long_wrap (v * 8 + (uint c - 0x30)) else v"
    have k: "Suc k + m \<le> 21" using Cons(4) Suc by simp
    have p: "(8::int) ^ Suc k \<le> 8 ^ 21" using k by (intro power_increasing) auto
    have v: "0 \<le> ?v \<and> ?v < 8 ^ Suc k"
    proof (cases "0x30 \<le> c \<and> c \<le> 0x37")
      case True
      then have d: "0 \<le> uint c - 0x30 \<and> uint c - 0x30 \<le> 7" using digit_range by blast
      have "v * 8 + (uint c - 0x30) < 8 ^ Suc k" using Cons(2,3) d by simp
      moreover have "0 \<le> v * 8 + (uint c - 0x30)" using Cons(2) d by simp
      moreover have "long_wrap (v * 8 + (uint c - 0x30)) = v * 8 + (uint c - 0x30)"
        using calculation p by (intro long_wrap_id) auto
      ultimately show ?thesis using True by simp
    next
      case False
      have "(8::int) ^ k \<le> 8 ^ Suc k" by (intro power_increasing) auto
      then have "v < 8 ^ Suc k" using Cons(3) by linarith
      then show ?thesis using False Cons(2) by auto
    qed
    have "0 \<le> octal_loop str m ?v \<and> octal_loop str m ?v < 8 ^ (Suc k + m)"
      using Cons(1)[of ?v "Suc k" m] v k by blast
    then show ?thesis using Suc by simp
  qed
qed

lemma octal_to_long_12: "0 \<le> octal_to_long str 12 \<and> octal_to_long str 12 < 8 ^ 12"
  using octal_loop_bounds[of 0 0 12 str] by (simp add: octal_to_long_def)

lemma c_div_nonneg: "0 \<le> a \<Longrightarrow> c_div a 512 = a div 512"
  by (cases "a = 0") (simp_all add: c_div_def)

lemma fread_facts:
  assumes "fread fp = (chunk, fp1)"
  shows "bytes fp1 = bytes fp" and "offset fp1 = offset fp + length chunk"
    and "chunk = take RECORD_SIZE (drop (offset fp) (bytes fp))"
  using assms by (auto simp: fread_def Let_def)

lemma fread_full:
  assumes "fread fp = (chunk, fp1)" and "length chunk = RECORD_SIZE"
  shows "offset fp + RECORD_SIZE \<le> length (bytes fp)"
  using assms by (auto simp: fread_def Let_def)

lemma skip_nonneg: "0 \<le> c_div (octal_to_long str 12 + 512 - 1) 512 * 512"
  using octal_to_long_12[of str] by (simp add: c_div_nonneg pos_imp_zdiv_nonneg_iff)

lemma scan_entry_Continue:
  assumes "scan_entry rec fp = Continue fp'"
  shows "bytes fp' = bytes fp" and "offset fp \<le> offset fp'" and "is_valid_tar_header rec"
  using assms skip_nonneg[of "drop 124 rec"]
  by (auto simp: scan_entry_def Let_def fseek_cur_def split: if_splits)

lemma all_zero_replicate: "all_zero bs \<longleftrightarrow> bs = replicate (length bs) 0"
  by (induction bs) auto

lemma ustar_bytes: "bytes_of ''ustar'' = [0x75, 0x73, 0x74, 0x61, 0x72]"
  by (simp add: bytes_of_def)

lemma short_record_invalid:
  assumes "is_block_empty rec" and "length rec = RECORD_SIZE" and "length chunk \<le> 257"
  shows "\<not> is_valid_tar_header (into_record chunk rec)"
proof -
  have r: "rec = replicate 512 0"
    using assms(1,2) by (simp add: is_block_empty_def all_zero_replicate)
  have "drop 257 (into_record chunk rec) = replicate 255 0"
    using assms(3) by (simp add: into_record_def r)
  then have "take 5 (drop 257 (into_record chunk rec)) = replicate 5 0"
    by simp
  also have "\<dots> = [0, 0, 0, 0, 0]"
    by (simp add: eval_nat_numeral)
  finally show ?thesis
    by (simp add: is_valid_tar_header_def ustar_bytes)
qed

lemma scan_block_Continue:
  assumes "scan_block rec fp = Continue fp'" and "length rec = RECORD_SIZE"
    and "RECORD_SIZE \<le> offset fp"
  shows "bytes fp' = bytes fp" and "offset fp - RECORD_SIZE < offset fp'"
proof -
  show "bytes fp' = bytes fp"
    using assms(1)
    by (auto simp: scan_block_def look_ahead_def Let_def fseek_cur_def fread_def
        split: if_splits look.splits prod.splits dest!: scan_entry_Continue(1))
  show "offset fp - RECORD_SIZE < offset fp'"
  proof (cases "is_block_empty rec")
    case False
    then show ?thesis using assms scan_entry_Continue(2)[of rec fp fp']
      by (auto simp: scan_block_def)
  next
    case True
    obtain chunk fp2 where f: "fread fp = (chunk, fp2)" by (cases "fread fp")
    let ?fp3 = "fseek_cur (- 512) fp2"
    have e: "scan_entry (into_record chunk rec) ?fp3 = Continue fp'"
      using assms(1) True f
      by (auto simp: scan_block_def look_ahead_def Let_def split: if_splits)
    have "is_valid_tar_header (into_record chunk rec)" using scan_entry_Continue(3)[OF e] .
    then have "257 < length chunk"
      using short_record_invalid[OF True assms(2), of chunk] by force
    moreover have "offset ?fp3 = offset fp + length chunk - 512"
      using fread_facts(2)[OF f] assms(3) by (auto simp: fseek_cur_def)
    ultimately show ?thesis using scan_entry_Continue(2)[OF e] assms(3) by linarith
  qed
qed

termination find_append_loop
proof (relation "measure (\<lambda>fp. length (bytes fp) - offset fp)")
  show "wf (measure (\<lambda>fp. length (bytes fp) - offset fp))" by simp
next
  fix fp chunk fp1 fp'
  assume a: "(chunk, fp1) = fread fp" "length chunk = RECORD_SIZE"
    "scan_block chunk fp1 = Continue fp'"
  have f: "fread fp = (chunk, fp1)" using a by simp
  have o: "offset fp1 = offset fp + 512" using fread_facts(2)[OF f] a(2) by simp
  have "bytes fp' = bytes fp" and "offset fp < offset fp'"
    using scan_block_Continue[OF a(3) a(2)] o fread_facts(1)[OF f] by auto
  then show "(fp', fp) \<in> measure (\<lambda>fp. length (bytes fp) - offset fp)"
    using fread_full[OF f a(2)] by simp
qed

declare find_append_loop.simps [simp del]

definition find_append_position :: "FILE \<Rightarrow> int" where
  "find_append_position fp = find_append_loop (fseek_set 0 fp)"

text \<open>
  The states of the stream at the head of the loop during the scan of \<open>fp0\<close>
  (\<open>scan_visits\<close>), and the whole blocks that the scan reads (\<open>scan_meets\<close>): the
  block read at the head of the loop, and the block read by the look-ahead after an
  empty block.
\<close>

inductive scan_visits :: "FILE \<Rightarrow> FILE \<Rightarrow> bool" for fp0 :: FILE where
  start: "scan_visits fp0 (fseek_set 0 fp0)"
| step: "scan_visits fp0 fp \<Longrightarrow> fread fp = (chunk, fp1) \<Longrightarrow> length chunk = RECORD_SIZE
         \<Longrightarrow> scan_block chunk fp1 = Continue fp' \<Longrightarrow> scan_visits fp0 fp'"

inductive scan_meets :: "FILE \<Rightarrow> byte list \<Rightarrow> bool" for fp0 :: FILE where
  head: "scan_visits fp0 fp \<Longrightarrow> fread fp = (chunk, fp1) \<Longrightarrow> length chunk = RECORD_SIZE
         \<Longrightarrow> scan_meets fp0 chunk"
| ahead: "scan_visits fp0 fp \<Longrightarrow> fread fp = (chunk, fp1) \<Longrightarrow> length chunk = RECORD_SIZE
         \<Longrightarrow> is_block_empty chunk \<Longrightarrow> fread fp1 = (chunk2, fp2)
         \<Longrightarrow> length chunk2 = RECORD_SIZE \<Longrightarrow> scan_meets fp0 chunk2"

section \<open>The append scan, earlier revision\<close>

text \<open>
  \<^verbatim>\<open>find_append_position\<close> of the earlier revision has the same loop; its locals
  \<open>filesize\<close>, \<open>skip\<close> and \<open>zpos\<close> are \<^verbatim>\<open>uint32_t\<close>, the size is decoded by
  \<^verbatim>\<open>octal_to_int32\<close>, and the skip is \<^verbatim>\<open>(filesize + RECORD_SIZE - 1) & (-RECORD_SIZE)\<close>
  in 32-bit unsigned arithmetic. A \<^verbatim>\<open>uint32_t\<close> is modelled by an \<open>int\<close> taken
  modulo \<open>2 ^ 32\<close>.
\<close>

definition uint32_of :: "int \<Rightarrow> int" where
  "uint32_of x = x mod 2 ^ 32"

definition scan_entry_old :: "byte list \<Rightarrow> FILE \<Rightarrow> scan_step" where
  "scan_entry_old rec fp =
     (if \<not> is_valid_tar_header rec then Return (- 1)
      else
        let filesize = uint32_of (octal_to_int32 (drop 124 rec) 12);
            skip = uint32_of (filesize + 512 - 1) AND uint32_of (- 512)
        in Continue (fseek_cur skip fp))"

definition look_ahead_old :: "byte list \<Rightarrow> FILE \<Rightarrow> look" where
  "look_ahead_old rec fp =
     (let zpos = uint32_of (ftell fp - 512) in
      case fread fp of (chunk, fp2) \<Rightarrow>
        if length chunk = RECORD_SIZE \<and> is_block_empty (into_record chunk rec)
        then Confirmed zpos
        else False_alarm (into_record chunk rec) (fseek_cur (- 512) fp2))"

definition scan_block_old :: "byte list \<Rightarrow> FILE \<Rightarrow> scan_step" where
  "scan_block_old rec fp =
     (if is_block_empty rec then
        (case look_ahead_old rec fp of
           Confirmed zpos \<Rightarrow> Return zpos
         | False_alarm rec2 fp3 \<Rightarrow> scan_entry_old rec2 fp3)
      else scan_entry_old rec fp)"

function find_append_loop_old :: "FILE \<Rightarrow> int" where
  "find_append_loop_old fp =
     (case fread fp of (chunk, fp1) \<Rightarrow>
        if length chunk = RECORD_SIZE then
          (case scan_block_old chunk fp1 of
             Return r \<Rightarrow> r
           | Continue fp' \<Rightarrow> find_append_loop_old fp')
        else ftell fp1)"
  by pat_completeness auto

lemma mask_512: "(4294966784::int) = push_bit 9 (mask 23)"
  by (simp add: mask_eq_exp_minus_1 push_bit_eq_mult)

lemma and_mask_512: "(x::int) AND 4294966784 = push_bit 9 (take_bit 23 (drop_bit 9 x))"
  unfolding mask_512
  by (rule bit_eqI) (auto simp: bit_simps)

lemma skip_old:
  "0 \<le> (uint32_of x AND uint32_of (- 512)) \<and> 512 dvd (uint32_of x AND uint32_of (- 512))"
proof -
  have "uint32_of (- 512) = 4294966784" by (simp add: uint32_of_def)
  then show ?thesis by (simp add: and_mask_512 push_bit_eq_mult)
qed

lemma scan_entry_old_Continue:
  assumes "scan_entry_old rec fp = Continue fp'"
  shows "bytes fp' = bytes fp" and "offset fp \<le> offset fp'" and "is_valid_tar_header rec"
proof -
  define skip where
    "skip = (uint32_of (uint32_of (octal_to_int32 (drop 124 rec) 12) + 512 - 1) AND uint32_of (- 512))"
  have n: "0 \<le> skip"
    unfolding skip_def using skip_old by blast
  show v: "is_valid_tar_header rec"
    using assms by (auto simp: scan_entry_old_def split: if_splits)
  then have "fp' = fseek_cur skip fp"
    using assms by (simp add: scan_entry_old_def Let_def skip_def)
  then show "bytes fp' = bytes fp" and "offset fp \<le> offset fp'"
    using n by (auto simp: fseek_cur_def)
qed

lemma scan_block_old_Continue:
  assumes "scan_block_old rec fp = Continue fp'" and "length rec = RECORD_SIZE"
    and "RECORD_SIZE \<le> offset fp"
  shows "bytes fp' = bytes fp" and "offset fp - RECORD_SIZE < offset fp'"
proof -
  show "bytes fp' = bytes fp"
    using assms(1)
    by (auto simp: scan_block_old_def look_ahead_old_def Let_def fseek_cur_def fread_def
        split: if_splits look.splits prod.splits dest!: scan_entry_old_Continue(1))
  show "offset fp - RECORD_SIZE < offset fp'"
  proof (cases "is_block_empty rec")
    case False
    then show ?thesis using assms scan_entry_old_Continue(2)[of rec fp fp']
      by (auto simp: scan_block_old_def)
  next
    case True
    obtain chunk fp2 where f: "fread fp = (chunk, fp2)" by (cases "fread fp")
    let ?fp3 = "fseek_cur (- 512) fp2"
    have e: "scan_entry_old (into_record chunk rec) ?fp3 = Continue fp'"
      using assms(1) True f
      by (auto simp: scan_block_old_def look_ahead_old_def Let_def split: if_splits)
    have "is_valid_tar_header (into_record chunk rec)" using scan_entry_old_Continue(3)[OF e] .
    then have "257 < length chunk"
      using short_record_invalid[OF True assms(2), of chunk] by force
    moreover have "offset ?fp3 = offset fp + length chunk - 512"
      using fread_facts(2)[OF f] assms(3) by (auto simp: fseek_cur_def)
    ultimately show ?thesis using scan_entry_old_Continue(2)[OF e] assms(3) by linarith
  qed
qed

termination find_append_loop_old
proof (relation "measure (\<lambda>fp. length (bytes fp) - offset fp)")
  show "wf (measure (\<lambda>fp. length (bytes fp) - offset fp))" by simp
next
  fix fp chunk fp1 fp'
  assume a: "(chunk, fp1) = fread fp" "length chunk = RECORD_SIZE"
    "scan_block_old chunk fp1 = Continue fp'"
  have f: "fread fp = (chunk, fp1)" using a by simp
  have o: "offset fp1 = offset fp + 512" using fread_facts(2)[OF f] a(2) by simp
  have "bytes fp' = bytes fp" and "offset fp < offset fp'"
    using scan_block_old_Continue[OF a(3) a(2)] o fread_facts(1)[OF f] by auto
  then show "(fp', fp) \<in> measure (\<lambda>fp. length (bytes fp) - offset fp)"
    using fread_full[OF f a(2)] by simp
qed

declare find_append_loop_old.simps [simp del]

definition find_append_position_old :: "FILE \<Rightarrow> int" where
  "find_append_position_old fp = find_append_loop_old (fseek_set 0 fp)"

section \<open>Writing entries\<close>

text \<open>
  \<^verbatim>\<open>write_tar_header\<close>: the struct has only \<^verbatim>\<open>char\<close> arrays, so its 512 bytes are
  the fields in order. \<open>header_blank\<close> is the struct when the checksum is computed
  (the checksum field holds eight spaces); \<open>tar_header\<close> is the struct that is written.
  \<^verbatim>\<open>sprintf(header.chksum, "%06o", checksum)\<close> prints at least six digits; bytes 6 and 7
  of the field are then set to NUL and space.
\<close>

definition strncpy_field :: "byte list \<Rightarrow> nat \<Rightarrow> byte list" where
  "strncpy_field src n = take n src @ replicate (n - length src) 0"

definition header_blank :: "byte list \<Rightarrow> int \<Rightarrow> int \<Rightarrow> byte list" where
  "header_blank filename filesize mtime =
     strncpy_field filename 100
     @ long_to_octal 8 420 @ long_to_octal 8 1000 @ long_to_octal 8 1000
     @ long_to_octal 12 filesize @ long_to_octal 12 mtime
     @ replicate 8 0x20 @ [0x30] @ replicate 100 0
     @ strncpy_field (bytes_of ''ustar  '') 8
     @ strncpy_field (bytes_of ''user'') 32 @ strncpy_field (bytes_of ''group'') 32
     @ replicate 8 0 @ replicate 8 0 @ replicate 155 0 @ replicate 12 0"

definition checksum_of :: "byte list \<Rightarrow> 32 word" where
  "checksum_of header = foldl (\<lambda>checksum b. checksum + ucast b) 0 header"

definition chksum_field :: "32 word \<Rightarrow> byte list" where
  "chksum_field checksum = take 6 (pad_octal 6 (unat checksum)) @ [0, 0x20]"

definition tar_header :: "byte list \<Rightarrow> int \<Rightarrow> int \<Rightarrow> byte list" where
  "tar_header filename filesize mtime =
     (let header = header_blank filename filesize mtime;
          checksum = checksum_of header
      in take 148 header @ chksum_field checksum @ drop 156 header)"

definition write_tar_header :: "FILE \<Rightarrow> byte list \<Rightarrow> int \<Rightarrow> int \<Rightarrow> FILE" where
  "write_tar_header out filename filesize mtime =
     fwrite (take RECORD_SIZE (tar_header filename filesize mtime)) out"

text \<open>
  The checksum as the specification words it: the sum of all the 512 header bytes, read
  as unsigned, with the eight bytes of the checksum field taken as spaces.
\<close>

definition compute_checksum_spec :: "byte list \<Rightarrow> nat" where
  "compute_checksum_spec header =
     sum_list (map unat (take 148 header @ replicate 8 0x20 @ drop 156 header))"

text \<open>
  \<^verbatim>\<open>write_file_content\<close>: the loop goes on while \<open>remaining\<close> is positive. At the
  end of the input every read delivers no byte and \<open>remaining\<close> stays as it is, so
  the loop need not end; \<open>None\<close> is the run that does not return.
\<close>

partial_function (option) write_file_content :: "FILE \<Rightarrow> FILE \<Rightarrow> int \<Rightarrow> FILE option" where
  "write_file_content out inp remaining =
     (if remaining > 0 then
        (case fread inp of (chunk, inp1) \<Rightarrow>
           write_file_content
             (fwrite (chunk @ replicate (RECORD_SIZE - length chunk) 0) out)
             inp1 (remaining - int (length chunk)))
      else Some out)"

declare write_file_content.simps [code]

section \<open>The file system and the process\<close>

text \<open>
  A directory entry is a regular file or not (a directory), with a modification time
  and contents. Opening for reading needs an entry; opening with \<^verbatim>\<open>"wb"\<close> creates or
  truncates a regular file and fails on a directory; \<^verbatim>\<open>"r+b"\<close> needs a regular file.
  The empty name opens nothing. A stream that is written holds its bytes until
  \<^verbatim>\<open>fclose\<close> stores them. Each mode returns to \<^verbatim>\<open>main\<close> or leaves the process
  through \<^verbatim>\<open>exit\<close>. The model is the Linux build (neither \<^verbatim>\<open>CPM\<close> nor
  \<^verbatim>\<open>__Z88DK\<close> is defined).
\<close>

record node =
  regular :: bool
  st_mtime :: int
  contents :: "byte list"

datatype diag =
  Perror "byte list"
  | Skipping "byte list"
  | Progress "byte list" int
  | Invalid_format
  | Corrupt_archive

record world =
  fs :: "byte list \<Rightarrow> node option"
  stdout :: "byte list"
  stderr :: "diag list"
  clock :: int

datatype status = Returned | Exited int

definition fopen_rb :: "world \<Rightarrow> byte list \<Rightarrow> FILE option" where
  "fopen_rb w name =
     (if name = [] then None
      else case fs w name of
        None \<Rightarrow> None
      | Some nd \<Rightarrow> Some \<lparr>bytes = contents nd, offset = 0\<rparr>)"

definition fopen_rpb :: "world \<Rightarrow> byte list \<Rightarrow> FILE option" where
  "fopen_rpb w name =
     (if name = [] then None
      else case fs w name of
        None \<Rightarrow> None
      | Some nd \<Rightarrow> if regular nd then Some \<lparr>bytes = contents nd, offset = 0\<rparr> else None)"

definition store :: "byte list \<Rightarrow> byte list \<Rightarrow> world \<Rightarrow> world" where
  "store name bs w =
     w\<lparr>fs := (fs w)(name \<mapsto> \<lparr>regular = True, st_mtime = clock w, contents = bs\<rparr>)\<rparr>"

definition fopen_wb :: "world \<Rightarrow> byte list \<Rightarrow> (FILE \<times> world) option" where
  "fopen_wb w name =
     (if name = [] then None
      else case fs w name of
        None \<Rightarrow> Some (\<lparr>bytes = [], offset = 0\<rparr>, store name [] w)
      | Some nd \<Rightarrow>
          if regular nd then Some (\<lparr>bytes = [], offset = 0\<rparr>, store name [] w) else None)"

definition fclose_written :: "byte list \<Rightarrow> FILE \<Rightarrow> world \<Rightarrow> world" where
  "fclose_written name fp w = store name (bytes fp) w"

definition complain :: "diag \<Rightarrow> world \<Rightarrow> world" where
  "complain d w = w\<lparr>stderr := stderr w @ [d]\<rparr>"

definition print :: "byte list \<Rightarrow> world \<Rightarrow> world" where
  "print s w = w\<lparr>stdout := stdout w @ s\<rparr>"

text \<open>
  \<^verbatim>\<open>write_file\<close>: a source that does not open, or is not a regular file, is reported
  and left out.
\<close>

definition write_file :: "byte list \<Rightarrow> FILE \<Rightarrow> world \<Rightarrow> (FILE \<times> world) option" where
  "write_file filename tar w =
     (case fopen_rb w filename of
        None \<Rightarrow> Some (tar, complain (Perror filename) w)
      | Some inp \<Rightarrow>
          (case fs w filename of
             None \<Rightarrow> Some (tar, complain (Skipping filename) w)
           | Some st \<Rightarrow>
               if \<not> regular st then Some (tar, complain (Skipping filename) w)
               else
                 let mtime = st_mtime st in
                 case get_file_size inp of (filesize, inp0) \<Rightarrow>
                   (case write_file_content
                           (write_tar_header tar filename filesize mtime) inp0 filesize of
                      None \<Rightarrow> None
                    | Some tar' \<Rightarrow> Some (tar', complain (Progress filename filesize) w))))"

fun write_files :: "byte list list \<Rightarrow> FILE \<Rightarrow> world \<Rightarrow> (FILE \<times> world) option" where
  "write_files [] tar w = Some (tar, w)"
| "write_files (filename # rest) tar w =
     (case write_file filename tar w of
        None \<Rightarrow> None
      | Some (tar', w') \<Rightarrow> write_files rest tar' w')"

section \<open>The layout of an archive\<close>

text \<open>
  The archive as the specification describes it, for the statements below: a source is
  accepted when it opens for reading and is a regular file; its entry is the header
  followed by the content, padded with zero bytes to the next multiple of 512; the
  archive is the entries of the accepted sources, in order, followed by two zero blocks.
  \<open>source_diag\<close> is the line that \<^verbatim>\<open>write_file\<close> sends to the standard error.
\<close>

definition padded :: "byte list \<Rightarrow> byte list" where
  "padded content = content @ replicate ((512 - length content mod 512) mod 512) 0"

definition accepted :: "world \<Rightarrow> byte list \<Rightarrow> bool" where
  "accepted w name =
     (case fopen_rb w name of
        None \<Rightarrow> False
      | Some inp \<Rightarrow> (case fs w name of None \<Rightarrow> False | Some st \<Rightarrow> regular st))"

definition source_size :: "world \<Rightarrow> byte list \<Rightarrow> nat" where
  "source_size w name = (case fs w name of None \<Rightarrow> 0 | Some st \<Rightarrow> length (contents st))"

definition entry_bytes :: "world \<Rightarrow> byte list \<Rightarrow> byte list" where
  "entry_bytes w name =
     (case fs w name of
        None \<Rightarrow> []
      | Some st \<Rightarrow>
          tar_header name (int (length (contents st))) (st_mtime st) @ padded (contents st))"

definition archive_bytes :: "world \<Rightarrow> byte list list \<Rightarrow> byte list" where
  "archive_bytes w names =
     concat (map (entry_bytes w) (filter (accepted w) names)) @ replicate 1024 0"

definition source_diag :: "world \<Rightarrow> byte list \<Rightarrow> diag" where
  "source_diag w name =
     (case fopen_rb w name of
        None \<Rightarrow> Perror name
      | Some inp \<Rightarrow>
          (case fs w name of
             None \<Rightarrow> Skipping name
           | Some st \<Rightarrow>
               if regular st then Progress name (int (length (contents st))) else Skipping name))"

section \<open>Create and append\<close>

text \<open>
  \<^verbatim>\<open>mode_create_append(append, argc, argv)\<close>: \<open>argv ! 2\<close> is the archive, the
  arguments from index 3 on are the sources (\<open>appending\<close> stands for the parameter
  \<^verbatim>\<open>append\<close>). After the sources the two zero blocks are written and the archive is
  closed.
\<close>

definition finish_archive :: "byte list \<Rightarrow> byte list list \<Rightarrow> FILE \<Rightarrow> world \<Rightarrow> (status \<times> world) option" where
  "finish_archive name sources tar w =
     (case write_files sources tar w of
        None \<Rightarrow> None
      | Some (tar1, w1) \<Rightarrow>
          let tar2 = fwrite (replicate RECORD_SIZE 0) tar1;
              tar3 = fwrite (replicate RECORD_SIZE 0) tar2
          in Some (Returned, fclose_written name tar3 w1))"

definition mode_create_append :: "bool \<Rightarrow> byte list list \<Rightarrow> world \<Rightarrow> (status \<times> world) option" where
  "mode_create_append appending argv w =
     (if appending then
        (case fopen_rpb w (argv ! 2) of
           None \<Rightarrow> Some (Exited 1, complain (Perror (bytes_of ''Cannot open archive'')) w)
         | Some tar \<Rightarrow>
             let append_pos = find_append_position tar in
             if append_pos < 0 then Some (Exited 1, complain Corrupt_archive w)
             else finish_archive (argv ! 2) (drop 3 argv) (fseek_set append_pos tar) w)
      else
        (case fopen_wb w (argv ! 2) of
           None \<Rightarrow> Some (Exited 1, complain (Perror (bytes_of ''Cannot create archive'')) w)
         | Some (tar, w0) \<Rightarrow> finish_archive (argv ! 2) (drop 3 argv) tar w0))"

section \<open>List and extract\<close>

text \<open>
  The name of an entry: the bytes of the name field up to the first NUL, at most 100, a
  byte that is not printable replaced by \<^verbatim>\<open>'?'\<close> (\<^verbatim>\<open>isprint\<close> of the C locale).
  \<^verbatim>\<open>%ld\<close> prints a \<^verbatim>\<open>long\<close> in decimal.
\<close>

definition isprint :: "byte \<Rightarrow> bool" where
  "isprint b = (0x20 \<le> b \<and> b \<le> 0x7E)"

definition entry_name :: "byte list \<Rightarrow> byte list" where
  "entry_name rec =
     map (\<lambda>b. if isprint b then b else 0x3F) (takeWhile (\<lambda>b. b \<noteq> 0) (take 100 rec))"

fun dec_str :: "nat \<Rightarrow> byte list" where
  "dec_str n = (if n < 10 then [0x30 + of_nat n] else dec_str (n div 10) @ [0x30 + of_nat (n mod 10)])"

declare dec_str.simps [simp del]

definition show_long :: "int \<Rightarrow> byte list" where
  "show_long x = (if x < 0 then 0x2D # dec_str (nat (- x)) else dec_str (nat x))"

definition content_skip :: "int \<Rightarrow> int" where
  "content_skip filesize = c_div (filesize + 511) 512 * 512"

function list_loop :: "FILE \<Rightarrow> world \<Rightarrow> world" where
  "list_loop fp w =
     (case fread fp of (chunk, fp1) \<Rightarrow>
        if length chunk = RECORD_SIZE then
          if is_block_empty chunk then w
          else if \<not> is_valid_tar_header chunk then complain Invalid_format w
          else
            let filename = entry_name chunk;
                filesize = octal_to_long (drop 124 chunk) 12
            in list_loop (fseek_cur (content_skip filesize) fp1)
                 (print (filename @ bytes_of '' ('' @ show_long filesize @ bytes_of '' bytes)'' @ [0x0A]) w)
        else w)"
  by pat_completeness auto

lemma content_skip_nonneg: "0 \<le> content_skip (octal_to_long str 12)"
  using octal_to_long_12[of str] by (simp add: content_skip_def c_div_nonneg pos_imp_zdiv_nonneg_iff)

termination list_loop
proof (relation "measure (\<lambda>(fp, w). length (bytes fp) - offset fp)")
  show "wf (measure (\<lambda>(fp, w). length (bytes fp) - offset fp))" by simp
next
  fix fp :: FILE and w :: world and chunk fp1 filename filesize
  assume a: "(chunk, fp1) = fread fp" "length chunk = RECORD_SIZE"
    "filesize = octal_to_long (drop 124 chunk) 12"
  have f: "fread fp = (chunk, fp1)" using a by simp
  have "offset fp1 = offset fp + 512" using fread_facts(2)[OF f] a(2) by simp
  then have "offset fp < offset (fseek_cur (content_skip filesize) fp1)"
    and "bytes (fseek_cur (content_skip filesize) fp1) = bytes fp"
    using content_skip_nonneg[of "drop 124 chunk"] a(3) fread_facts(1)[OF f]
    by (auto simp: fseek_cur_def)
  then show "((fseek_cur (content_skip filesize) fp1,
               print (filename @ bytes_of '' ('' @ show_long filesize @ bytes_of '' bytes)'' @ [0x0A]) w),
              fp, w) \<in> measure (\<lambda>(fp, w). length (bytes fp) - offset fp)"
    using fread_full[OF f a(2)] by simp
qed

declare list_loop.simps [simp del]

definition mode_list :: "byte list \<Rightarrow> world \<Rightarrow> status \<times> world" where
  "mode_list tarfile w =
     (case fopen_rb w tarfile of
        None \<Rightarrow> (Exited 1, complain (Perror (bytes_of ''open'')) w)
      | Some fp \<Rightarrow> (Returned, list_loop fp w))"

text \<open>
  \<^verbatim>\<open>mode_extract\<close>: the inner loop reads block after block into the buffer and
  writes the first \<open>to_read\<close> bytes of the buffer to the output. The archive stream
  keeps the bytes it was opened on.
\<close>

function extract_data :: "FILE \<Rightarrow> byte list \<Rightarrow> FILE \<Rightarrow> int \<Rightarrow> FILE \<times> byte list \<times> FILE" where
  "extract_data tar rec out remaining =
     (if remaining > 0 then
        let to_read = (if remaining > 512 then 512 else remaining) in
        case fread tar of (chunk, tar1) \<Rightarrow>
          extract_data tar1 (into_record chunk rec)
            (fwrite (take (nat to_read) (into_record chunk rec)) out) (remaining - to_read)
      else (tar, rec, out))"
  by pat_completeness auto

termination extract_data
  by (relation "measure (\<lambda>(tar, rec, out, remaining). nat remaining)") auto

declare extract_data.simps [simp del]

lemma extract_data_tar:
  "bytes (fst (extract_data tar rec out remaining)) = bytes tar
   \<and> offset tar \<le> offset (fst (extract_data tar rec out remaining))"
proof (induction tar rec out remaining rule: extract_data.induct)
  case (1 tar rec out remaining)
  show ?case
  proof (cases "remaining > 0")
    case False
    then show ?thesis by (simp add: extract_data.simps[of tar rec out remaining])
  next
    case True
    obtain chunk tar1 where f: "fread tar = (chunk, tar1)" by (cases "fread tar")
    let ?to_read = "if remaining > 512 then 512 else remaining"
    have ih: "bytes (fst (extract_data tar1 (into_record chunk rec)
                 (fwrite (take (nat ?to_read) (into_record chunk rec)) out) (remaining - ?to_read))) = bytes tar1
        \<and> offset tar1 \<le> offset (fst (extract_data tar1 (into_record chunk rec)
                 (fwrite (take (nat ?to_read) (into_record chunk rec)) out) (remaining - ?to_read)))"
      using "1"[OF True refl f[symmetric]] .
    have e: "extract_data tar rec out remaining =
        extract_data tar1 (into_record chunk rec)
          (fwrite (take (nat ?to_read) (into_record chunk rec)) out) (remaining - ?to_read)"
      using True f by (subst extract_data.simps) (simp add: Let_def)
    show ?thesis
      unfolding e using ih fread_facts(1,2)[OF f] by simp
  qed
qed

function extract_loop :: "FILE \<Rightarrow> world \<Rightarrow> world" where
  "extract_loop tar w =
     (case fread tar of (chunk, tar1) \<Rightarrow>
        if length chunk = RECORD_SIZE then
          if is_block_empty chunk then w
          else if \<not> is_valid_tar_header chunk then complain Invalid_format w
          else
            let filename = entry_name chunk;
                filesize = octal_to_long (drop 124 chunk) 12
            in case fopen_wb w filename of
                 None \<Rightarrow>
                   extract_loop (fseek_cur (content_skip filesize) tar1)
                     (complain (Perror filename) w)
               | Some (out, w0) \<Rightarrow>
                   (case extract_data tar1 chunk out filesize of (tar2, rec2, out2) \<Rightarrow>
                      extract_loop tar2
                        (fclose_written filename out2
                           (print (filename @ bytes_of '' ('' @ show_long filesize @ bytes_of '')'' @ [0x0A]) w0)))
        else w)"
  by pat_completeness auto

termination extract_loop
proof (relation "measure (\<lambda>(fp, w). length (bytes fp) - offset fp)")
  show "wf (measure (\<lambda>(fp, w). length (bytes fp) - offset fp))" by simp
next
  fix tar :: FILE and w :: world and chunk tar1 filename filesize
  assume a: "(chunk, tar1) = fread tar" "length chunk = RECORD_SIZE"
    "filesize = octal_to_long (drop 124 chunk) 12"
  have f: "fread tar = (chunk, tar1)" using a by simp
  have "offset tar1 = offset tar + 512" using fread_facts(2)[OF f] a(2) by simp
  then have "offset tar < offset (fseek_cur (content_skip filesize) tar1)"
    and "bytes (fseek_cur (content_skip filesize) tar1) = bytes tar"
    using content_skip_nonneg[of "drop 124 chunk"] a(3) fread_facts(1)[OF f]
    by (auto simp: fseek_cur_def)
  then show "((fseek_cur (content_skip filesize) tar1, complain (Perror filename) w), tar, w)
              \<in> measure (\<lambda>(fp, w). length (bytes fp) - offset fp)"
    using fread_full[OF f a(2)] by simp
next
  fix tar :: FILE and w :: world and chunk tar1 filename filesize out w0 tar2 rest out2
  assume a: "(chunk, tar1) = fread tar" "length chunk = RECORD_SIZE"
    "(tar2, rest) = extract_data tar1 chunk out filesize"
  have f: "fread tar = (chunk, tar1)" using a by simp
  have o: "offset tar1 = offset tar + 512" using fread_facts(2)[OF f] a(2) by simp
  have t: "tar2 = fst (extract_data tar1 chunk out filesize)" using a(3) by (metis fst_conv)
  have "bytes tar2 = bytes tar" and "offset tar < offset tar2"
    using extract_data_tar[of tar1 chunk out filesize] t o fread_facts(1)[OF f] by auto
  then show "((tar2, fclose_written filename out2
                 (print (filename @ bytes_of '' ('' @ show_long filesize @ bytes_of '')'' @ [0x0A]) w0)),
              tar, w) \<in> measure (\<lambda>(fp, w). length (bytes fp) - offset fp)"
    using fread_full[OF f a(2)] by simp
qed

declare extract_loop.simps [simp del]

definition mode_extract :: "byte list \<Rightarrow> world \<Rightarrow> status \<times> world" where
  "mode_extract tarfile w =
     (case fopen_rb w tarfile of
        None \<Rightarrow> (Exited 1, complain (Perror (bytes_of ''open'')) w)
      | Some tar \<Rightarrow> (Returned, extract_loop tar w))"

section \<open>The command line\<close>

definition usage :: "byte list \<Rightarrow> world \<Rightarrow> world" where
  "usage argv0 w =
     print (bytes_of ''Tiny TAR archiving tool version 20250512'' @ [0x0A]
       @ bytes_of ''Usage:'' @ [0x0A]
       @ bytes_of ''  '' @ argv0
       @ bytes_of '' -cf archive.tar file1 [file2 ...]  # Create archive from files.'' @ [0x0A]
       @ bytes_of ''  '' @ argv0
       @ bytes_of '' -rf archive.tar file1 [file2 ...]  # Append files to archive.'' @ [0x0A]
       @ bytes_of ''  '' @ argv0
       @ bytes_of '' [-tf] archive.tar                  # List all files in archive.'' @ [0x0A]
       @ bytes_of ''  '' @ argv0
       @ bytes_of '' -xf archive.tar                    # Extract all files from archive.'' @ [0x0A]) w"

definition exit_status :: "status \<Rightarrow> int" where
  "exit_status st = (case st of Returned \<Rightarrow> 0 | Exited n \<Rightarrow> n)"

definition main :: "byte list list \<Rightarrow> world \<Rightarrow> (int \<times> world) option" where
  "main argv w =
     (let argc = length argv in
      if argc < 2 then Some (1, usage (argv ! 0) w)
      else if argc = 2 \<or> argv ! 1 = bytes_of ''-tf'' then
        (case mode_list (argv ! (if argc = 2 then 1 else 2)) w of
           (st, w') \<Rightarrow> Some (exit_status st, w'))
      else if argc = 3 \<and> argv ! 1 = bytes_of ''-xf'' then
        (case mode_extract (argv ! 2) w of
           (st, w') \<Rightarrow> Some (exit_status st, w'))
      else if 4 \<le> argc \<and> argv ! 1 = bytes_of ''-cf'' then
        (case mode_create_append False argv w of
           None \<Rightarrow> None
         | Some (st, w') \<Rightarrow> Some (exit_status st, w'))
      else if 4 \<le> argc \<and> argv ! 1 = bytes_of ''-rf'' then
        (case mode_create_append True argv w of
           None \<Rightarrow> None
         | Some (st, w') \<Rightarrow> Some (exit_status st, w'))
      else Some (1, usage (argv ! 0) w))"

section \<open>Sources and the example\<close>

text \<open>
  A source that survives the round trip: it is accepted, its name has at most 100 bytes,
  all printable, and its size is below \<open>8 ^ 11\<close>, the bound of the size field.
  \<open>list_line\<close> is the line that the listing prints for it.
\<close>

definition source_contents :: "world \<Rightarrow> byte list \<Rightarrow> byte list" where
  "source_contents w name = (case fs w name of None \<Rightarrow> [] | Some st \<Rightarrow> contents st)"

definition archivable :: "world \<Rightarrow> byte list \<Rightarrow> bool" where
  "archivable w name =
     (accepted w name \<and> length name \<le> 100 \<and> list_all isprint name \<and> source_size w name < 8 ^ 11)"

definition list_line :: "world \<Rightarrow> byte list \<Rightarrow> byte list" where
  "list_line w name =
     name @ bytes_of '' ('' @ show_long (int (source_size w name)) @ bytes_of '' bytes)'' @ [0x0A]"

text \<open>
  The effect of extracting one such source on the world: the output is created, the line
  is printed, and the contents are stored when the output is closed.
\<close>

definition extract_line :: "world \<Rightarrow> byte list \<Rightarrow> byte list" where
  "extract_line w name =
     name @ bytes_of '' ('' @ show_long (int (source_size w name)) @ bytes_of '')'' @ [0x0A]"

definition extracted :: "world \<Rightarrow> world \<Rightarrow> byte list \<Rightarrow> world" where
  "extracted w0 w name =
     store name (source_contents w0 name) (print (extract_line w0 name) (store name [] w))"

text \<open>The example of the specification: the file \<^verbatim>\<open>a\<close> holds \<^verbatim>\<open>"xyz"\<close>, the file \<^verbatim>\<open>b\<close> is empty.\<close>

definition example_world :: world where
  "example_world =
     \<lparr>fs = [bytes_of ''a'' \<mapsto> \<lparr>regular = True, st_mtime = 0, contents = bytes_of ''xyz''\<rparr>,
            bytes_of ''b'' \<mapsto> \<lparr>regular = True, st_mtime = 0, contents = []\<rparr>],
      stdout = [], stderr = [], clock = 0\<rparr>"


section \<open>Theorems\<close>

lemma octal_loop_filter:
  "octal_loop str len val =
     foldl (\<lambda>v c. long_wrap (v * 8 + (uint c - 0x30))) val
       (filter (\<lambda>c. 0x30 \<le> c \<and> c \<le> 0x37) (take len str))"
proof (induction str arbitrary: len val)
  case Nil
  show ?case by simp
next
  case (Cons c str)
  show ?case
  proof (cases len)
    case 0
    then show ?thesis by simp
  next
    case (Suc m)
    then show ?thesis using Cons[of m] by simp
  qed
qed

lemma octal_loop32_filter:
  "octal_loop32 str len val =
     foldl (\<lambda>v c. int32_wrap (v * 8 + (uint c - 0x30))) val
       (filter (\<lambda>c. 0x30 \<le> c \<and> c \<le> 0x37) (takeWhile (\<lambda>c. c \<noteq> 0) (take len str)))"
proof (induction str arbitrary: len val)
  case Nil
  show ?case by simp
next
  case (Cons c str)
  show ?case
  proof (cases len)
    case 0
    then show ?thesis by simp
  next
    case (Suc m)
    then show ?thesis using Cons[of m] by simp
  qed
qed

subsection \<open>C7: the octal decoder\<close>

text \<open>
  C7, as amended. The decoder accumulates \<open>value * 8 + digit\<close>, in the arithmetic of its
  result type, over all the bytes in \<^verbatim>\<open>'0'..'7'\<close> among the first \<open>len\<close> bytes, from
  left to right. A byte that is not an octal digit is passed over and does not end the
  loop: \<^verbatim>\<open>octal_to_long\<close> always runs to \<open>len\<close>, and the earlier
  \<^verbatim>\<open>octal_to_int32\<close> ends early only at a NUL byte. Padding bytes after the digits
  therefore leave the value as it is.
\<close>

theorem octal_decoder_passes_over_non_digits:
  "octal_to_long str len =
     foldl (\<lambda>v c. long_wrap (v * 8 + (uint c - 0x30))) 0
       (filter (\<lambda>c. 0x30 \<le> c \<and> c \<le> 0x37) (take len str))
   \<and> octal_to_int32 str len =
     foldl (\<lambda>v c. int32_wrap (v * 8 + (uint c - 0x30))) 0
       (filter (\<lambda>c. 0x30 \<le> c \<and> c \<le> 0x37) (takeWhile (\<lambda>c. c \<noteq> 0) (take len str)))"
  by (simp add: octal_to_long_def octal_to_int32_def octal_loop_filter octal_loop32_filter)

text \<open>
  C7 as stated fails: on the three bytes \<^verbatim>\<open>"1 2"\<close> a decoder that stops at the first
  byte that is not an octal digit yields 1; the code passes over the space and yields 10
  (octal 12).
\<close>

theorem octal_decoder_counterexample:
  "octal_to_long (bytes_of ''1 2'') 3 = 10 \<and> decode_spec (bytes_of ''1 2'') 3 = 1"
  by (simp add: octal_to_long_def decode_spec_def bytes_of_def long_wrap_def)

subsection \<open>The append scan\<close>

lemma find_append_loop_unfold:
  assumes "fread fp = (chunk, fp1)"
  shows "find_append_loop fp =
     (if length chunk = RECORD_SIZE then
        (case scan_block chunk fp1 of Return r \<Rightarrow> r | Continue fp' \<Rightarrow> find_append_loop fp')
      else ftell fp1)"
  using assms by (subst find_append_loop.simps) simp

lemma scan_visits_result:
  "scan_visits fp0 fp \<Longrightarrow> find_append_loop fp = find_append_position fp0"
proof (induction rule: scan_visits.induct)
  case start
  show ?case by (simp add: find_append_position_def)
next
  case (step fp chunk fp1 fp')
  have "find_append_loop fp = find_append_loop fp'"
    using find_append_loop_unfold[OF step(2)] step(3,4) by simp
  then show ?case using step.IH by simp
qed

lemma into_record_full: "length chunk = RECORD_SIZE \<Longrightarrow> length rec = RECORD_SIZE \<Longrightarrow> into_record chunk rec = chunk"
  by (simp add: into_record_def)

lemma fread_full_state:
  assumes "fread fp = (chunk, fp2)" and "length chunk = RECORD_SIZE"
  shows "fp2 = fp\<lparr>offset := offset fp + 512\<rparr>"
  using assms by (auto simp: fread_def Let_def)

lemma look_ahead_false_alarm:
  assumes "fread fp = (chunk, fp2)" and "length chunk = RECORD_SIZE" and "\<not> is_block_empty chunk"
    and "length rec = RECORD_SIZE"
  shows "look_ahead rec fp = False_alarm chunk fp"
proof -
  have "fseek_cur (- 512) fp2 = fp"
    using fread_full_state[OF assms(1,2)] by (simp add: fseek_cur_def)
  then show ?thesis
    using assms by (simp add: look_ahead_def Let_def into_record_full)
qed

lemma scan_entry_invalid: "\<not> is_valid_tar_header rec \<Longrightarrow> scan_entry rec fp = Return (- 1)"
  by (simp add: scan_entry_def)

lemma scan_entry_valid:
  "is_valid_tar_header rec \<Longrightarrow>
     scan_entry rec fp = Continue (fseek_cur (c_div (octal_to_long (drop 124 rec) 12 + 512 - 1) 512 * 512) fp)"
  by (simp add: scan_entry_def Let_def)

lemma all_zero_replicate_True: "all_zero (replicate n 0)"
  by (induction n) auto

lemma is_block_empty_zeros: "is_block_empty (replicate RECORD_SIZE 0)"
  by (simp add: is_block_empty_def all_zero_replicate_True)

lemma all_zero_replicate_nonzero: "b \<noteq> 0 \<Longrightarrow> 0 < n \<Longrightarrow> \<not> all_zero (replicate n b)"
  by (cases n) auto

lemma not_empty_A: "\<not> is_block_empty (replicate RECORD_SIZE 0x41)"
  by (simp add: is_block_empty_def all_zero_replicate_nonzero)

lemma not_valid_A: "\<not> is_valid_tar_header (replicate RECORD_SIZE 0x41)"
proof -
  have "take 5 (drop 257 (replicate RECORD_SIZE (0x41::byte))) = replicate 5 0x41" by simp
  also have "\<dots> = [0x41, 0x41, 0x41, 0x41, 0x41]" by (simp add: eval_nat_numeral)
  finally show ?thesis by (simp add: is_valid_tar_header_def ustar_bytes)
qed

lemma fread_at:
  "fread \<lparr>bytes = pre @ blk @ post, offset = length pre\<rparr> =
     (take RECORD_SIZE (blk @ post), \<lparr>bytes = pre @ blk @ post, offset = length pre + length (take RECORD_SIZE (blk @ post))\<rparr>)"
  by (simp add: fread_def Let_def)






lemma scan_meets_corrupt:
  assumes "scan_meets tar blk" and "\<not> is_block_empty blk" and "\<not> is_valid_tar_header blk"
  shows "find_append_position tar = - 1"
  using assms
proof (cases rule: scan_meets.cases)
  case (head fp fp1)
  have "scan_block blk fp1 = Return (- 1)"
    using assms(2,3) by (simp add: scan_block_def scan_entry_invalid)
  then have "find_append_loop fp = - 1"
    using find_append_loop_unfold[OF head(2)] head(3) by simp
  then show ?thesis using scan_visits_result[OF head(1)] by simp
next
  case (ahead fp chunk fp1 fp2)
  have "look_ahead chunk fp1 = False_alarm blk fp1"
    using look_ahead_false_alarm[OF ahead(5,6) assms(2) ahead(3)] .
  then have "scan_block chunk fp1 = Return (- 1)"
    using ahead(4) assms(3) by (simp add: scan_block_def scan_entry_invalid)
  then have "find_append_loop fp = - 1"
    using find_append_loop_unfold[OF ahead(2)] ahead(3) by simp
  then show ?thesis using scan_visits_result[OF ahead(1)] by simp
qed

lemma list_loop_unfold:
  assumes "fread fp = (chunk, fp1)"
  shows "list_loop fp w =
     (if length chunk = RECORD_SIZE then
          if is_block_empty chunk then w
          else if \<not> is_valid_tar_header chunk then complain Invalid_format w
          else
            list_loop (fseek_cur (content_skip (octal_to_long (drop 124 chunk) 12)) fp1)
                 (print (entry_name chunk @ bytes_of '' ('' @ show_long (octal_to_long (drop 124 chunk) 12) @ bytes_of '' bytes)'' @ [0x0A]) w)
        else w)"
  using assms by (subst list_loop.simps) (simp add: Let_def)

lemma extract_loop_unfold:
  assumes "fread tar = (chunk, tar1)"
  shows "extract_loop tar w =
     (if length chunk = RECORD_SIZE then
          if is_block_empty chunk then w
          else if \<not> is_valid_tar_header chunk then complain Invalid_format w
          else
            (case fopen_wb w (entry_name chunk) of
                 None \<Rightarrow>
                   extract_loop (fseek_cur (content_skip (octal_to_long (drop 124 chunk) 12)) tar1)
                     (complain (Perror (entry_name chunk)) w)
               | Some (out, w0) \<Rightarrow>
                   (case extract_data tar1 chunk out (octal_to_long (drop 124 chunk) 12) of (tar2, rec2, out2) \<Rightarrow>
                      extract_loop tar2
                        (fclose_written (entry_name chunk) out2
                           (print (entry_name chunk @ bytes_of '' ('' @ show_long (octal_to_long (drop 124 chunk) 12) @ bytes_of '')'' @ [0x0A]) w0))))
        else w)"
  using assms by (subst extract_loop.simps) (simp add: Let_def)

subsection \<open>C1: corruption met by the append scan\<close>

text \<open>
  C1. Let the archive open for appending. If a whole block that the append scan reads
  is not empty and does not hold \<^verbatim>\<open>"ustar"\<close> at offset 257, then the append leaves
  through \<^verbatim>\<open>exit(1)\<close> with the message for a corrupt archive, and nothing was written:
  the file system, and with it the archive's contents and length, is as before.
\<close>

theorem append_aborts_on_bad_magic:
  assumes "fopen_rpb w (argv ! 2) = Some tar" and "scan_meets tar blk"
    and "\<not> is_block_empty blk" and "\<not> is_valid_tar_header blk"
  shows "mode_create_append True argv w = Some (Exited 1, complain Corrupt_archive w)
    \<and> fs (complain Corrupt_archive w) = fs w"
  using assms(1) scan_meets_corrupt[OF assms(2,3,4)]
  by (simp add: mode_create_append_def complain_def)

theorem append_aborts_on_bad_magic_witness:
  "scan_meets \<lparr>bytes = replicate 512 0x41, offset = 0\<rparr> (replicate 512 0x41)
   \<and> \<not> is_block_empty (replicate 512 0x41) \<and> \<not> is_valid_tar_header (replicate 512 0x41)
   \<and> mode_create_append True [bytes_of ''tinytar'', bytes_of ''-rf'', bytes_of ''x.tar'', bytes_of ''a'']
     \<lparr>fs = [bytes_of ''x.tar'' \<mapsto> \<lparr>regular = True, st_mtime = 0, contents = replicate 512 0x41\<rparr>],
      stdout = [], stderr = [], clock = 0\<rparr>
   = Some (Exited 1, complain Corrupt_archive
     \<lparr>fs = [bytes_of ''x.tar'' \<mapsto> \<lparr>regular = True, st_mtime = 0, contents = replicate 512 0x41\<rparr>],
      stdout = [], stderr = [], clock = 0\<rparr>)"
proof -
  let ?w = "\<lparr>fs = [bytes_of ''x.tar'' \<mapsto> \<lparr>regular = True, st_mtime = 0, contents = replicate 512 0x41\<rparr>],
      stdout = [], stderr = [], clock = 0\<rparr>"
  let ?argv = "[bytes_of ''tinytar'', bytes_of ''-rf'', bytes_of ''x.tar'', bytes_of ''a'']"
  let ?tar = "\<lparr>bytes = replicate 512 0x41, offset = 0\<rparr>"
  have o: "fopen_rpb ?w (?argv ! 2) = Some ?tar"
    by (simp add: fopen_rpb_def bytes_of_def)
  have r: "fread (fseek_set 0 ?tar) = (replicate 512 0x41, \<lparr>bytes = replicate 512 0x41, offset = 512\<rparr>)"
    by (simp add: fread_def fseek_set_def Let_def)
  have m: "scan_meets ?tar (replicate 512 0x41)"
    by (rule scan_meets.head[OF scan_visits.start r]) simp
  show ?thesis
    using append_aborts_on_bad_magic[OF o m not_empty_A not_valid_A] m not_empty_A not_valid_A
    by blast
qed

subsection \<open>C9: the exit status\<close>

text \<open>
  C9, at the failing input. The archive is one block of 512 bytes \<^verbatim>\<open>'A'\<close>: not empty,
  and without the magic. Listing it and extracting it both report the invalid format on
  the standard error and end the loop, and \<^verbatim>\<open>main\<close> returns 0.
\<close>

theorem corrupt_archive_exit_status:
  "main [bytes_of ''tinytar'', bytes_of ''-tf'', bytes_of ''x.tar'']
     \<lparr>fs = [bytes_of ''x.tar'' \<mapsto> \<lparr>regular = True, st_mtime = 0, contents = replicate 512 0x41\<rparr>],
      stdout = [], stderr = [], clock = 0\<rparr>
   = Some (0,
     \<lparr>fs = [bytes_of ''x.tar'' \<mapsto> \<lparr>regular = True, st_mtime = 0, contents = replicate 512 0x41\<rparr>],
      stdout = [], stderr = [Invalid_format], clock = 0\<rparr>)
  \<and> main [bytes_of ''tinytar'', bytes_of ''-xf'', bytes_of ''x.tar'']
     \<lparr>fs = [bytes_of ''x.tar'' \<mapsto> \<lparr>regular = True, st_mtime = 0, contents = replicate 512 0x41\<rparr>],
      stdout = [], stderr = [], clock = 0\<rparr>
   = Some (0,
     \<lparr>fs = [bytes_of ''x.tar'' \<mapsto> \<lparr>regular = True, st_mtime = 0, contents = replicate 512 0x41\<rparr>],
      stdout = [], stderr = [Invalid_format], clock = 0\<rparr>)"
proof -
  let ?w = "\<lparr>fs = [bytes_of ''x.tar'' \<mapsto> \<lparr>regular = True, st_mtime = 0, contents = replicate 512 0x41\<rparr>],
      stdout = [], stderr = [], clock = 0\<rparr>"
  let ?tar = "\<lparr>bytes = replicate 512 0x41, offset = 0\<rparr>"
  have o: "fopen_rb ?w (bytes_of ''x.tar'') = Some ?tar"
    by (simp add: fopen_rb_def bytes_of_def)
  have r: "fread ?tar = (replicate 512 0x41, \<lparr>bytes = replicate 512 0x41, offset = 512\<rparr>)"
    by (simp add: fread_def Let_def)
  have l: "list_loop ?tar ?w = complain Invalid_format ?w"
    using list_loop_unfold[OF r] not_empty_A not_valid_A by simp
  have e: "extract_loop ?tar ?w = complain Invalid_format ?w"
    using extract_loop_unfold[OF r] not_empty_A not_valid_A by simp
  have tf: "bytes_of ''-xf'' \<noteq> bytes_of ''-tf''" by (simp add: bytes_of_def)
  show ?thesis
    using o l e tf
    by (simp add: main_def mode_list_def mode_extract_def exit_status_def complain_def)
qed

subsection \<open>The octal codec and the header\<close>

lemma octal_str_nonempty: "octal_str n \<noteq> []"
  by (subst octal_str.simps) simp

lemma digit_byte:
  assumes "d < 8"
  shows "uint (0x30 + of_nat d :: byte) = 48 + int d"
proof -
  have "unat (of_nat d :: byte) = d" using assms by (simp add: unat_of_nat)
  then have "unat (0x30 + of_nat d :: byte) = 48 + d"
    using assms by (simp add: unat_word_ariths)
  then show ?thesis by (simp add: uint_nat)
qed

lemma digit_byte_octal:
  assumes "d < 8"
  shows "0x30 \<le> (0x30 + of_nat d :: byte) \<and> (0x30 + of_nat d :: byte) \<le> 0x37"
  using digit_byte[OF assms] assms by (simp add: word_le_def)

lemma octal_str_digits: "c \<in> set (octal_str n) \<Longrightarrow> 0x30 \<le> c \<and> c \<le> 0x37"
proof (induction n rule: octal_str.induct)
  case (1 n)
  show ?case
  proof (cases "n < 8")
    case True
    then have "c = 0x30 + of_nat n" using "1.prems" by (subst (asm) octal_str.simps) simp
    then show ?thesis using digit_byte_octal[OF True] by simp
  next
    case False
    then have "c \<in> set (octal_str (n div 8)) \<or> c = 0x30 + of_nat (n mod 8)"
      using "1.prems" by (subst (asm) octal_str.simps) auto
    then show ?thesis
      using "1.IH"[OF False] digit_byte_octal[of "n mod 8"] by auto
  qed
qed

lemma filter_octal_str:
  "filter (\<lambda>c. 0x30 \<le> c \<and> c \<le> 0x37) (octal_str n) = octal_str n"
  using octal_str_digits by (simp add: filter_id_conv)

lemma length_octal_str_le: "n < 8 ^ k \<Longrightarrow> 0 < k \<Longrightarrow> length (octal_str n) \<le> k"
proof (induction n arbitrary: k rule: octal_str.induct)
  case (1 n)
  show ?case
  proof (cases "n < 8")
    case True
    then show ?thesis using "1.prems" by (subst octal_str.simps) simp
  next
    case False
    obtain j where k: "k = Suc j" using "1.prems"(2) by (cases k) auto
    have "j \<noteq> 0" using False "1.prems"(1) k by (cases j) auto
    moreover have "n div 8 < 8 ^ j" using "1.prems"(1) k by (simp add: less_mult_imp_div_less mult.commute)
    ultimately have "length (octal_str (n div 8)) \<le> j" using "1.IH"[OF False, of j] by simp
    then show ?thesis using False k by (subst octal_str.simps) simp
  qed
qed

text \<open>The fold of the decoder over the digits of a number.\<close>

lemma decode_octal_str:
  "0 \<le> v \<Longrightarrow> v * 8 ^ length (octal_str n) + int n < 2 ^ 63 \<Longrightarrow>
     foldl (\<lambda>v c. long_wrap (v * 8 + (uint c - 0x30))) v (octal_str n)
       = v * 8 ^ length (octal_str n) + int n"
proof (induction n arbitrary: v rule: octal_str.induct)
  case (1 n)
  show ?case
  proof (cases "n < 8")
    case True
    have s: "octal_str n = [0x30 + of_nat n]" using True by (subst octal_str.simps) simp
    have "long_wrap (v * 8 + int n) = v * 8 + int n"
      using "1.prems" s by (intro long_wrap_id) auto
    then show ?thesis using s digit_byte[OF True] by simp
  next
    case False
    let ?m = "n div 8" and ?d = "n mod 8"
    have s: "octal_str n = octal_str ?m @ [0x30 + of_nat ?d]"
      using False by (subst octal_str.simps) simp
    have l: "length (octal_str n) = Suc (length (octal_str ?m))" using s by simp
    have n: "int n = int ?m * 8 + int ?d" by (simp add: zdiv_int zmod_int)
    have b: "(v * 8 ^ length (octal_str ?m) + int ?m) * 8 + int ?d = v * 8 ^ length (octal_str n) + int n"
      unfolding l n by (simp add: algebra_simps)
    define X where "X = v * 8 ^ length (octal_str ?m) + int ?m"
    define R where "R = v * 8 ^ length (octal_str n) + int n"
    have "0 \<le> X" using "1.prems"(1) by (simp add: X_def)
    moreover have "X * 8 + int ?d = R" using b by (simp add: X_def R_def)
    moreover have "R < 2 ^ 63" using "1.prems"(2) by (simp add: R_def)
    ultimately have "X < 2 ^ 63" by linarith
    then have "v * 8 ^ length (octal_str ?m) + int ?m < 2 ^ 63" by (simp add: X_def)
    then have ih: "foldl (\<lambda>v c. long_wrap (v * 8 + (uint c - 0x30))) v (octal_str ?m)
        = v * 8 ^ length (octal_str ?m) + int ?m"
      using "1.IH"[OF False "1.prems"(1)] by simp
    have p: "0 \<le> v * 8 ^ length (octal_str n) + int n" using "1.prems"(1) by simp
    have "long_wrap ((v * 8 ^ length (octal_str ?m) + int ?m) * 8 + int ?d)
        = v * 8 ^ length (octal_str n) + int n"
      unfolding b using "1.prems"(2) p by (intro long_wrap_id) auto
    then show ?thesis
      unfolding s using ih digit_byte[of ?d] by simp
  qed
qed

lemma decode_zeros:
  "foldl (\<lambda>v c. long_wrap (v * 8 + (uint c - 0x30))) 0 (replicate k (0x30::byte)) = 0"
  by (induction k) (simp_all add: long_wrap_def)

lemma filter_zeros:
  "filter (\<lambda>c. 0x30 \<le> c \<and> c \<le> 0x37) (replicate k (0x30::byte)) = replicate k 0x30"
  by (induction k) simp_all

lemma length_pad_octal: "n < 8 ^ w \<Longrightarrow> 0 < w \<Longrightarrow> length (pad_octal w n) = w"
  using length_octal_str_le[of n w] by (simp add: pad_octal_def)

lemma length_pad_octal_ge: "w \<le> length (pad_octal w n)"
  by (simp add: pad_octal_def)

lemma decode_pad_octal:
  assumes "n < 8 ^ w" and "0 < w" and "w \<le> 21"
  shows "foldl (\<lambda>v c. long_wrap (v * 8 + (uint c - 0x30))) 0
           (filter (\<lambda>c. 0x30 \<le> c \<and> c \<le> 0x37) (pad_octal w n)) = int n"
proof -
  have "(8::nat) ^ w \<le> 8 ^ 21" using assms(3) by (intro power_increasing) auto
  then have "n < 2 ^ 63" using assms(1) by simp
  then have "int n < 2 ^ 63" by (metis of_nat_less_iff of_nat_numeral of_nat_power)
  then show ?thesis
    using decode_octal_str[of 0 n]
    by (simp add: pad_octal_def filter_zeros filter_octal_str decode_zeros)
qed

lemma octal_to_long_take: "octal_to_long str len = octal_to_long (take len str) len"
  by (simp add: octal_to_long_def octal_loop_filter)

lemma length_long_to_octal: "0 < sz \<Longrightarrow> length (long_to_octal sz val) = sz"
  using length_pad_octal_ge[of "sz - 1" "ulong_of val"] by (simp add: long_to_octal_def)

lemma ulong_of_nonneg: "0 \<le> v \<Longrightarrow> v < 2 ^ 64 \<Longrightarrow> ulong_of v = nat v"
  by (simp add: ulong_of_def)

lemma decode_long_to_octal:
  assumes "0 \<le> v" and "v < 8 ^ (sz - 1)" and "1 < sz" and "sz \<le> 22"
  shows "octal_to_long (long_to_octal sz v) sz = v"
proof -
  have "(8::int) ^ (sz - 1) \<le> 8 ^ 21" using assms(4) by (intro power_increasing) auto
  then have "v < 2 ^ 64" using assms(2) by simp
  then have u: "ulong_of v = nat v" using assms(1) by (simp add: ulong_of_def)
  have n: "nat v < 8 ^ (sz - 1)"
    using assms(1,2) by (metis nat_less_iff of_nat_numeral of_nat_power)
  have l: "length (pad_octal (sz - 1) (nat v)) = sz - 1"
    using length_pad_octal[OF n] assms(3) by simp
  have t: "take sz (long_to_octal sz v) = pad_octal (sz - 1) (nat v) @ [0]"
    using l assms(3) by (simp add: long_to_octal_def u)
  have "octal_to_long (long_to_octal sz v) sz
      = foldl (\<lambda>v c. long_wrap (v * 8 + (uint c - 0x30))) 0
           (filter (\<lambda>c. 0x30 \<le> c \<and> c \<le> 0x37) (pad_octal (sz - 1) (nat v)))"
    by (simp add: octal_to_long_def octal_loop_filter t)
  also have "\<dots> = int (nat v)"
    using decode_pad_octal[OF n] assms(3,4) by simp
  finally show ?thesis using assms(1) by simp
qed

lemma length_strncpy_field: "length (strncpy_field src n) = n"
  by (simp add: strncpy_field_def)

lemma length_header_blank: "length (header_blank filename filesize mtime) = 512"
  by (simp add: header_blank_def length_long_to_octal length_strncpy_field)

lemma header_blank_size:
  "take 12 (drop 124 (header_blank filename filesize mtime)) = long_to_octal 12 filesize"
  by (simp add: header_blank_def length_long_to_octal length_strncpy_field)

lemma magic_field: "strncpy_field (bytes_of ''ustar  '') 8 = bytes_of ''ustar'' @ [0x20, 0x20, 0]"
  by (simp add: strncpy_field_def bytes_of_def)

lemma header_blank_magic:
  "take 5 (drop 257 (header_blank filename filesize mtime)) = bytes_of ''ustar''"
  by (simp add: header_blank_def length_long_to_octal length_strncpy_field magic_field ustar_bytes)

lemma header_blank_name:
  "take 100 (header_blank filename filesize mtime) = strncpy_field filename 100"
  by (simp add: header_blank_def length_long_to_octal length_strncpy_field)

lemma header_blank_chksum:
  "take 8 (drop 148 (header_blank filename filesize mtime)) = replicate 8 0x20"
  by (simp add: header_blank_def length_long_to_octal length_strncpy_field)

lemma unat_ucast_byte: "unat (ucast (b :: byte) :: 32 word) = unat b"
proof -
  have "unat b < 2 ^ 8" using unsigned_less[of b, where 'a = nat] by simp
  then have "unat b < 2 ^ 32" by simp
  then show ?thesis by (simp add: unsigned_ucast_eq take_bit_nat_eq_self)
qed

lemma unat_checksum_fold:
  "unat (foldl (\<lambda>checksum b. checksum + ucast b) (acc :: 32 word) (bs :: byte list))
     = (unat acc + sum_list (map unat bs)) mod 2 ^ 32"
proof (induction bs arbitrary: acc)
  case Nil
  show ?case using unsigned_less[of acc, where 'a = nat] by simp
next
  case (Cons b bs)
  have "unat (acc + ucast b) = (unat acc + unat b) mod 2 ^ 32"
    by (simp add: unat_word_ariths unat_ucast_byte)
  then show ?case using Cons[of "acc + ucast b"] by (simp add: mod_add_left_eq add.assoc)
qed

lemma sum_bytes_le: "sum_list (map unat (bs :: byte list)) \<le> 255 * length bs"
proof (induction bs)
  case Nil
  show ?case by simp
next
  case (Cons b bs)
  have "unat b < 2 ^ 8" using unsigned_less[of b, where 'a = nat] by simp
  then show ?case using Cons by simp
qed

lemma unat_checksum_of:
  "length header = 512 \<Longrightarrow> unat (checksum_of header) = sum_list (map unat header)"
  using sum_bytes_le[of header] by (simp add: checksum_of_def unat_checksum_fold)

lemma length_chksum_field: "length (chksum_field c) = 8"
  using length_pad_octal_ge[of 6 "unat c"] by (simp add: chksum_field_def)

lemma length_tar_header: "length (tar_header filename filesize mtime) = 512"
  by (simp add: tar_header_def Let_def length_header_blank length_chksum_field)

lemma tar_header_chksum:
  "take 8 (drop 148 (tar_header filename filesize mtime))
     = chksum_field (checksum_of (header_blank filename filesize mtime))"
  by (simp add: tar_header_def Let_def length_header_blank length_chksum_field)

lemma tar_header_blanked:
  "take 148 (tar_header filename filesize mtime) @ replicate 8 0x20
     @ drop 156 (tar_header filename filesize mtime) = header_blank filename filesize mtime"
proof -
  let ?h = "header_blank filename filesize mtime"
  have "take 148 (tar_header filename filesize mtime) = take 148 ?h"
    by (simp add: tar_header_def Let_def length_header_blank)
  moreover have "drop 156 (tar_header filename filesize mtime) = drop 156 ?h"
    by (simp add: tar_header_def Let_def length_header_blank length_chksum_field)
  moreover have "?h = take 148 ?h @ take 8 (drop 148 ?h) @ drop 8 (drop 148 ?h)"
    by (simp only: append_take_drop_id)
  ultimately show ?thesis by (simp add: header_blank_chksum)
qed

lemma decode_chksum_field:
  assumes "unat c < 8 ^ 6"
  shows "octal_to_long (chksum_field c) 8 = int (unat c)"
proof -
  have l: "length (pad_octal 6 (unat c)) = 6" using length_pad_octal[OF assms] by simp
  have "octal_to_long (chksum_field c) 8
      = foldl (\<lambda>v c. long_wrap (v * 8 + (uint c - 0x30))) 0
           (filter (\<lambda>c. 0x30 \<le> c \<and> c \<le> 0x37) (pad_octal 6 (unat c)))"
    using l by (simp add: octal_to_long_def octal_loop_filter chksum_field_def)
  then show ?thesis using decode_pad_octal[OF assms] by simp
qed

subsection \<open>C4: the checksum of a written header\<close>

text \<open>
  C4. For every header that \<^verbatim>\<open>write_tar_header\<close> builds, whatever the name, the
  size and the time, the decoder applied to the checksum field (8 bytes at offset 148)
  yields the sum of the 512 header bytes, read as unsigned, with the checksum field
  replaced by eight spaces.
\<close>

theorem writer_checksum_invariant:
  "octal_to_long (drop 148 (tar_header filename filesize mtime)) 8
     = int (compute_checksum_spec (tar_header filename filesize mtime))"
proof -
  let ?h = "header_blank filename filesize mtime"
  have s: "unat (checksum_of ?h) = sum_list (map unat ?h)"
    by (rule unat_checksum_of[OF length_header_blank])
  have "sum_list (map unat ?h) \<le> 255 * 512"
    using sum_bytes_le[of ?h] by (simp add: length_header_blank)
  then have b: "unat (checksum_of ?h) < 8 ^ 6" using s by simp
  have "octal_to_long (drop 148 (tar_header filename filesize mtime)) 8
      = octal_to_long (chksum_field (checksum_of ?h)) 8"
    by (subst octal_to_long_take) (simp add: tar_header_chksum)
  also have "\<dots> = int (sum_list (map unat ?h))"
    using decode_chksum_field[OF b] s by simp
  finally show ?thesis
    by (simp add: compute_checksum_spec_def tar_header_blanked)
qed

subsection \<open>The writer\<close>

lemma round_up_512: "(n::nat) + (512 - n mod 512) mod 512 = ((n + 511) div 512) * 512"
proof -
  define q where "q = n div 512"
  define r where "r = n mod 512"
  have n: "n = q * 512 + r" by (simp add: q_def r_def)
  have r: "r < 512" by (simp add: r_def)
  show ?thesis
  proof (cases "r = 0")
    case True
    then show ?thesis by (simp add: n)
  next
    case False
    have "(r + 511) div 512 = 1" using r False by (simp add: div_nat_eqI)
    then have "(q * 512 + r + 511) div 512 = q + 1"
      by (metis add.assoc add.commute div_mult_self3 zero_neq_numeral)
    moreover have "(q * 512 + r) mod 512 = r" using r by simp
    moreover have "(512 - r) mod 512 = 512 - r" using False by simp
    ultimately show ?thesis using r unfolding n by simp
  qed
qed

lemma sub_mod_512: "512 \<le> (n::nat) \<Longrightarrow> (n - 512) mod 512 = n mod 512"
  by (simp add: le_mod_geq)

lemma length_padded: "length (padded c) = ((length c + 511) div 512) * 512"
  by (simp add: padded_def round_up_512)

lemma padded_Nil: "padded [] = []"
  by (simp add: padded_def)

lemma padded_step:
  assumes "rest \<noteq> []"
  shows "padded rest = take 512 rest @ replicate (512 - length (take 512 rest)) 0 @ padded (drop 512 rest)"
proof (cases "512 \<le> length rest")
  case True
  have "(length rest - 512) mod 512 = length rest mod 512"
    using True by (rule sub_mod_512)
  then have "padded (drop 512 rest) = drop 512 rest @ replicate ((512 - length rest mod 512) mod 512) 0"
    by (simp add: padded_def)
  then show ?thesis using True by (simp add: padded_def min_def flip: append_assoc)
next
  case False
  then have "(512 - length rest mod 512) mod 512 = 512 - length rest"
    using assms by (cases rest) auto
  then show ?thesis using False by (simp add: padded_def padded_Nil)
qed

lemma fwrite_at_end:
  "offset fp = length (bytes fp) \<Longrightarrow>
     fwrite bs fp = \<lparr>bytes = bytes fp @ bs, offset = length (bytes fp) + length bs\<rparr>"
  by (simp add: fwrite_def)

lemma write_file_content_at_end:
  "offset out = length (bytes out) \<Longrightarrow> offset inp \<le> length (bytes inp) \<Longrightarrow>
     n = length (bytes inp) - offset inp \<Longrightarrow>
     write_file_content out inp (int n)
       = Some \<lparr>bytes = bytes out @ padded (drop (offset inp) (bytes inp)),
               offset = length (bytes out) + length (padded (drop (offset inp) (bytes inp)))\<rparr>"
proof (induction n arbitrary: out inp rule: less_induct)
  case (less n)
  let ?rest = "drop (offset inp) (bytes inp)"
  show ?case
  proof (cases "n = 0")
    case True
    then have "?rest = []" using less.prems by simp
    then show ?thesis using True less.prems(1)
      by (subst write_file_content.simps) (simp add: padded_Nil)
  next
    case False
    obtain chunk inp1 where f: "fread inp = (chunk, inp1)" by (cases "fread inp")
    have c: "chunk = take 512 ?rest" and o1: "offset inp1 = offset inp + length chunk"
      and b1: "bytes inp1 = bytes inp"
      using fread_facts[OF f] by auto
    have ne: "?rest \<noteq> []" using False less.prems by simp
    have lc: "0 < length chunk \<and> length chunk \<le> n" using c False less.prems by simp
    let ?out1 = "fwrite (chunk @ replicate (RECORD_SIZE - length chunk) 0) out"
    have w1: "?out1 = \<lparr>bytes = bytes out @ chunk @ replicate (512 - length chunk) 0,
                       offset = length (bytes out) + length (chunk @ replicate (512 - length chunk) 0)\<rparr>"
      using fwrite_at_end[OF less.prems(1)] by simp
    have n1: "n - length chunk = length (bytes inp1) - offset inp1"
      unfolding o1 b1 using less.prems(3) by linarith
    have lt: "n - length chunk < n" using lc False by linarith
    have p1: "offset ?out1 = length (bytes ?out1)" using w1 by simp
    have p2: "offset inp1 \<le> length (bytes inp1)"
      unfolding o1 b1 using lc less.prems(2,3) by linarith
    have ih: "write_file_content ?out1 inp1 (int (n - length chunk))
        = Some \<lparr>bytes = bytes ?out1 @ padded (drop (offset inp1) (bytes inp1)),
               offset = length (bytes ?out1) + length (padded (drop (offset inp1) (bytes inp1)))\<rparr>"
      by (rule less.IH[OF lt p1 p2 n1])
    have d: "drop (offset inp1) (bytes inp1) = drop 512 ?rest"
    proof (cases "512 \<le> length ?rest")
      case True
      then have "length chunk = 512" using c by simp
      then show ?thesis using o1 b1 by (simp add: add.commute)
    next
      case False
      then have "length chunk = length ?rest" using c by simp
      then show ?thesis using o1 b1 False by simp
    qed
    have p: "padded ?rest = chunk @ replicate (512 - length chunk) 0 @ padded (drop (offset inp1) (bytes inp1))"
      using padded_step[OF ne] c d by simp
    have "write_file_content out inp (int n)
        = write_file_content ?out1 inp1 (int n - int (length chunk))"
      using False f by (subst write_file_content.simps) simp
    also have "int n - int (length chunk) = int (n - length chunk)" using lc by simp
    finally have e: "write_file_content out inp (int n)
        = write_file_content ?out1 inp1 (int (n - length chunk))" .
    have b: "bytes ?out1 = bytes out @ chunk @ replicate (512 - length chunk) 0"
      using w1 by simp
    show ?thesis
      unfolding e ih p b by simp
  qed
qed


lemma write_file_at_end:
  assumes "offset tar = length (bytes tar)"
  shows "write_file name tar w =
     Some (\<lparr>bytes = bytes tar @ (if accepted w name then entry_bytes w name else []),
            offset = length (bytes tar) + length (if accepted w name then entry_bytes w name else [])\<rparr>,
           complain (source_diag w name) w)"
proof (cases "accepted w name")
  case False
  have "tar = \<lparr>bytes = bytes tar, offset = length (bytes tar)\<rparr>" using assms by simp
  then show ?thesis using False
    by (auto simp: write_file_def accepted_def source_diag_def split: option.splits)
next
  case True
  then obtain st where o: "fopen_rb w name = Some \<lparr>bytes = contents st, offset = 0\<rparr>"
    and s: "fs w name = Some st" and r: "regular st"
    by (auto simp: accepted_def fopen_rb_def split: option.splits if_splits)
  let ?hdr = "tar_header name (int (length (contents st))) (st_mtime st)"
  let ?tar1 = "write_tar_header tar name (int (length (contents st))) (st_mtime st)"
  have t1: "?tar1 = \<lparr>bytes = bytes tar @ ?hdr, offset = length (bytes tar) + 512\<rparr>"
    using fwrite_at_end[OF assms] by (simp add: write_tar_header_def length_tar_header)
  let ?out = "\<lparr>bytes = bytes tar @ ?hdr, offset = length (bytes tar) + 512\<rparr>"
  let ?inp = "\<lparr>bytes = contents st, offset = 0\<rparr>"
  have q1: "offset ?out = length (bytes ?out)" by (simp add: length_tar_header)
  have q2: "offset ?inp \<le> length (bytes ?inp)" by simp
  have q3: "length (contents st) = length (bytes ?inp) - offset ?inp" by simp
  have c0: "write_file_content ?out ?inp (int (length (contents st)))
      = Some \<lparr>bytes = bytes ?out @ padded (drop (offset ?inp) (bytes ?inp)),
               offset = length (bytes ?out) + length (padded (drop (offset ?inp) (bytes ?inp)))\<rparr>"
    by (rule write_file_content_at_end[OF q1 q2 q3])
  have c: "write_file_content ?tar1 ?inp (int (length (contents st)))
      = Some \<lparr>bytes = (bytes tar @ ?hdr) @ padded (contents st),
               offset = length (bytes tar @ ?hdr) + length (padded (contents st))\<rparr>"
    unfolding t1 c0 by simp
  have wf: "write_file name tar w =
      (case write_file_content ?tar1 \<lparr>bytes = contents st, offset = 0\<rparr> (int (length (contents st))) of
         None \<Rightarrow> None
       | Some tar' \<Rightarrow> Some (tar', complain (Progress name (int (length (contents st)))) w))"
    using o s r by (simp add: write_file_def get_file_size_def)
  have e: "entry_bytes w name = ?hdr @ padded (contents st)"
    using s by (simp add: entry_bytes_def)
  have d: "source_diag w name = Progress name (int (length (contents st)))"
    using o s r by (simp add: source_diag_def)
  show ?thesis
    unfolding wf c using True by (simp add: e d length_tar_header)
qed

lemma fs_complain: "fs (complain d w) = fs w"
  by (simp add: complain_def)

lemma accepted_complain: "accepted (complain d w) = accepted w"
  by (rule ext) (simp add: accepted_def fopen_rb_def complain_def split: option.splits)

lemma entry_bytes_complain: "entry_bytes (complain d w) = entry_bytes w"
  by (rule ext) (simp add: entry_bytes_def complain_def)

lemma source_diag_complain: "source_diag (complain d w) = source_diag w"
  by (rule ext) (simp add: source_diag_def fopen_rb_def complain_def split: option.splits)

lemma write_files_at_end:
  "offset tar = length (bytes tar) \<Longrightarrow>
     write_files names tar w =
       Some (\<lparr>bytes = bytes tar @ concat (map (entry_bytes w) (filter (accepted w) names)),
              offset = length (bytes tar) + length (concat (map (entry_bytes w) (filter (accepted w) names)))\<rparr>,
             w\<lparr>stderr := stderr w @ map (source_diag w) names\<rparr>)"
proof (induction names arbitrary: tar w)
  case Nil
  then show ?case by simp
next
  case (Cons name names)
  let ?e = "if accepted w name then entry_bytes w name else []"
  let ?tar1 = "\<lparr>bytes = bytes tar @ ?e, offset = length (bytes tar) + length ?e\<rparr>"
  let ?w1 = "complain (source_diag w name) w"
  have w: "write_file name tar w = Some (?tar1, ?w1)"
    by (rule write_file_at_end[OF Cons.prems])
  have "write_files names ?tar1 ?w1 =
       Some (\<lparr>bytes = bytes ?tar1 @ concat (map (entry_bytes ?w1) (filter (accepted ?w1) names)),
              offset = length (bytes ?tar1) + length (concat (map (entry_bytes ?w1) (filter (accepted ?w1) names)))\<rparr>,
             ?w1\<lparr>stderr := stderr ?w1 @ map (source_diag ?w1) names\<rparr>)"
    by (rule Cons.IH) simp
  then show ?case
    unfolding write_files.simps w
    by (simp add: accepted_complain entry_bytes_complain source_diag_complain) (simp add: complain_def)
qed


lemma fopen_wb_Some:
  "fopen_wb w name \<noteq> None \<Longrightarrow> fopen_wb w name = Some (\<lparr>bytes = [], offset = 0\<rparr>, store name [] w)"
  by (auto simp: fopen_wb_def split: option.splits if_splits)

lemma other_name_store:
  assumes "name \<noteq> archive"
  shows "accepted (store archive bs w) name = accepted w name"
    and "entry_bytes (store archive bs w) name = entry_bytes w name"
    and "source_diag (store archive bs w) name = source_diag w name"
  using assms by (auto simp: accepted_def entry_bytes_def source_diag_def fopen_rb_def store_def split: option.splits)

lemma other_names_store:
  assumes "archive \<notin> set names"
  shows "concat (map (entry_bytes (store archive bs w)) (filter (accepted (store archive bs w)) names))
       = concat (map (entry_bytes w) (filter (accepted w) names))"
    and "map (source_diag (store archive bs w)) names = map (source_diag w) names"
proof -
  have n: "\<And>name. name \<in> set names \<Longrightarrow> name \<noteq> archive" using assms by auto
  have a: "filter (accepted (store archive bs w)) names = filter (accepted w) names"
    by (rule filter_cong) (simp_all add: other_name_store(1)[OF n])
  have b: "map (entry_bytes (store archive bs w)) (filter (accepted w) names)
      = map (entry_bytes w) (filter (accepted w) names)"
    by (rule map_cong) (simp_all add: other_name_store(2)[OF n])
  show "concat (map (entry_bytes (store archive bs w)) (filter (accepted (store archive bs w)) names))
       = concat (map (entry_bytes w) (filter (accepted w) names))"
    unfolding a b ..
  show "map (source_diag (store archive bs w)) names = map (source_diag w) names"
    by (rule map_cong) (simp_all add: other_name_store(3)[OF n])
qed

lemma finish_archive_at_end:
  assumes "offset tar = length (bytes tar)"
  shows "finish_archive archive sources tar w =
     Some (Returned, store archive
       (bytes tar @ concat (map (entry_bytes w) (filter (accepted w) sources)) @ replicate 1024 0)
       (w\<lparr>stderr := stderr w @ map (source_diag w) sources\<rparr>))"
proof -
  let ?es = "concat (map (entry_bytes w) (filter (accepted w) sources))"
  let ?tar1 = "\<lparr>bytes = bytes tar @ ?es, offset = length (bytes tar) + length ?es\<rparr>"
  have w: "write_files sources tar w = Some (?tar1, w\<lparr>stderr := stderr w @ map (source_diag w) sources\<rparr>)"
    by (rule write_files_at_end[OF assms])
  have z: "replicate 512 (0::byte) @ replicate 512 0 = replicate 1024 0"
    by (simp add: replicate_add[symmetric])
  have "bytes (fwrite (replicate 512 0) (fwrite (replicate 512 0) ?tar1))
      = bytes tar @ ?es @ replicate 1024 0"
    by (simp add: fwrite_def z)
  then show ?thesis
    unfolding finish_archive_def w by (simp add: Let_def fclose_written_def)
qed

lemma create_result:
  assumes "fopen_wb w archive \<noteq> None" and "archive \<notin> set sources"
  shows "mode_create_append False (prog # flag # archive # sources) w =
     Some (Returned,
       w\<lparr>fs := (fs w)(archive \<mapsto> \<lparr>regular = True, st_mtime = clock w,
                                   contents = archive_bytes w sources\<rparr>),
         stderr := stderr w @ map (source_diag w) sources\<rparr>)"
proof -
  let ?w0 = "store archive [] w"
  let ?tar = "\<lparr>bytes = [], offset = 0\<rparr>"
  have f: "finish_archive archive sources ?tar ?w0 =
     Some (Returned, store archive
       (bytes ?tar @ concat (map (entry_bytes ?w0) (filter (accepted ?w0) sources)) @ replicate 1024 0)
       (?w0\<lparr>stderr := stderr ?w0 @ map (source_diag ?w0) sources\<rparr>))"
    by (rule finish_archive_at_end) simp
  show ?thesis
    using fopen_wb_Some[OF assms(1)]
    by (simp add: mode_create_append_def f other_names_store[OF assms(2)] archive_bytes_def)
      (simp add: store_def)
qed

lemma length_entry_bytes:
  "accepted w name \<Longrightarrow>
     length (entry_bytes w name) = 512 + ((source_size w name + 511) div 512) * 512"
  by (auto simp: accepted_def entry_bytes_def source_size_def length_tar_header length_padded
      split: option.splits)

lemma length_archive_bytes:
  "length (archive_bytes w names) =
     (\<Sum>name\<leftarrow>filter (accepted w) names. 512 + ((source_size w name + 511) div 512) * 512) + 1024"
proof -
  have m: "map (\<lambda>x. length (entry_bytes w x)) (filter (accepted w) names)
      = map (\<lambda>name. 512 + ((source_size w name + 511) div 512) * 512) (filter (accepted w) names)"
    by (rule map_cong) (simp_all add: length_entry_bytes)
  show ?thesis
    by (simp add: archive_bytes_def length_concat comp_def m)
qed

subsection \<open>C5: the length of a created archive\<close>

text \<open>
  C5. Let the archive be creatable and not one of its own sources. Then creating it
  returns, and the archive holds, for each accepted source in order, the header and the
  content padded with zeros to a multiple of 512, and then exactly 1024 zero bytes; its
  length is the sum over the accepted sources of \<open>512 + ceil(size / 512) * 512\<close>, plus
  1024.
\<close>

theorem created_archive_length:
  assumes "fopen_wb w archive \<noteq> None" and "archive \<notin> set sources"
  shows "\<exists>w' nd. mode_create_append False (prog # flag # archive # sources) w = Some (Returned, w')
    \<and> fs w' archive = Some nd
    \<and> contents nd = concat (map (entry_bytes w) (filter (accepted w) sources)) @ replicate 1024 0
    \<and> length (contents nd) =
        (\<Sum>name\<leftarrow>filter (accepted w) sources. 512 + ((source_size w name + 511) div 512) * 512) + 1024"
  using create_result[OF assms] length_archive_bytes[of w sources]
  by (simp add: archive_bytes_def)

theorem created_archive_length_witness:
  "fopen_wb \<lparr>fs = [bytes_of ''a'' \<mapsto> \<lparr>regular = True, st_mtime = 0, contents = bytes_of ''xyz''\<rparr>,
                   bytes_of ''b'' \<mapsto> \<lparr>regular = True, st_mtime = 0, contents = []\<rparr>],
             stdout = [], stderr = [], clock = 0\<rparr> (bytes_of ''t.tar'') \<noteq> None
   \<and> bytes_of ''t.tar'' \<notin> set [bytes_of ''a'', bytes_of ''b'']
   \<and> (\<exists>w' nd. mode_create_append False
          [bytes_of ''tinytar'', bytes_of ''-cf'', bytes_of ''t.tar'', bytes_of ''a'', bytes_of ''b'']
          \<lparr>fs = [bytes_of ''a'' \<mapsto> \<lparr>regular = True, st_mtime = 0, contents = bytes_of ''xyz''\<rparr>,
                 bytes_of ''b'' \<mapsto> \<lparr>regular = True, st_mtime = 0, contents = []\<rparr>],
           stdout = [], stderr = [], clock = 0\<rparr> = Some (Returned, w')
        \<and> fs w' (bytes_of ''t.tar'') = Some nd \<and> length (contents nd) = 2560)"
proof -
  let ?w = "\<lparr>fs = [bytes_of ''a'' \<mapsto> \<lparr>regular = True, st_mtime = 0, contents = bytes_of ''xyz''\<rparr>,
                   bytes_of ''b'' \<mapsto> \<lparr>regular = True, st_mtime = 0, contents = []\<rparr>],
             stdout = [], stderr = [], clock = 0\<rparr>"
  have h1: "fopen_wb ?w (bytes_of ''t.tar'') \<noteq> None"
    by (simp add: fopen_wb_def bytes_of_def)
  have h2: "bytes_of ''t.tar'' \<notin> set [bytes_of ''a'', bytes_of ''b'']"
    by (simp add: bytes_of_def)
  have s: "(\<Sum>name\<leftarrow>filter (accepted ?w) [bytes_of ''a'', bytes_of ''b''].
              512 + ((source_size ?w name + 511) div 512) * 512) + 1024 = 2560"
    by (simp add: accepted_def source_size_def fopen_rb_def bytes_of_def)
  show ?thesis
    using created_archive_length[OF h1 h2, of "bytes_of ''tinytar''" "bytes_of ''-cf''"] h1 h2
    unfolding s by blast
qed

subsection \<open>Written headers, and listing a written archive\<close>

lemma tar_header_take:
  "k \<le> 148 \<Longrightarrow> take k (tar_header filename filesize mtime) = take k (header_blank filename filesize mtime)"
  by (simp add: tar_header_def Let_def length_header_blank min_def)

lemma tar_header_drop:
  "156 \<le> k \<Longrightarrow> drop k (tar_header filename filesize mtime) = drop k (header_blank filename filesize mtime)"
  by (simp add: tar_header_def Let_def length_header_blank length_chksum_field)

lemma tar_header_valid: "is_valid_tar_header (tar_header filename filesize mtime)"
  by (simp add: is_valid_tar_header_def tar_header_drop header_blank_magic)

lemma valid_not_empty:
  assumes "is_valid_tar_header header"
  shows "\<not> is_block_empty header"
proof
  assume "is_block_empty header"
  then have z: "take 512 header = replicate (length (take 512 header)) 0"
    by (simp add: is_block_empty_def all_zero_replicate)
  have "take 5 (drop 257 header) = take 5 (drop 257 (take 512 header))"
    by (simp add: drop_take)
  also have "\<dots> = replicate (min 5 (length (take 512 header) - 257)) 0"
    by (subst z) simp
  finally have "bytes_of ''ustar'' = replicate (min 5 (length (take 512 header) - 257)) 0"
    using assms by (simp add: is_valid_tar_header_def)
  then have "(0x75::byte) \<in> set (replicate (min 5 (length (take 512 header) - 257)) 0)"
    by (metis ustar_bytes list.set_intros(1))
  then show False by simp
qed

lemma tar_header_size:
  assumes "0 \<le> filesize" and "filesize < 8 ^ 11"
  shows "octal_to_long (drop 124 (tar_header filename filesize mtime)) 12 = filesize"
proof -
  have "take 12 (drop 124 (tar_header filename filesize mtime))
      = drop 124 (take 136 (tar_header filename filesize mtime))"
    by (simp add: drop_take)
  also have "\<dots> = drop 124 (take 136 (header_blank filename filesize mtime))"
    by (simp add: tar_header_take)
  also have "\<dots> = long_to_octal 12 filesize"
    using header_blank_size[of filename filesize mtime] by (simp add: drop_take)
  finally show ?thesis
    using decode_long_to_octal[of filesize 12] assms
    by (subst octal_to_long_take) simp
qed

lemma isprint_nonzero: "isprint b \<Longrightarrow> b \<noteq> 0"
  by (auto simp: isprint_def)

lemma tar_header_name:
  assumes "length filename \<le> 100" and "list_all isprint filename"
  shows "entry_name (tar_header filename filesize mtime) = filename"
proof -
  have n: "\<forall>b\<in>set filename. b \<noteq> 0" and p: "\<forall>b\<in>set filename. isprint b"
    using assms(2) isprint_nonzero by (auto simp: list_all_iff)
  have "take 100 (tar_header filename filesize mtime) = filename @ replicate (100 - length filename) 0"
    using assms(1) by (simp add: tar_header_take header_blank_name strncpy_field_def)
  moreover have "takeWhile (\<lambda>b. b \<noteq> 0) (filename @ replicate (100 - length filename) 0) = filename"
    using n by (cases "100 - length filename") (simp_all add: takeWhile_append2)
  moreover have "map (\<lambda>b. if isprint b then b else 0x3F) filename = filename"
    using p by (simp add: map_idI)
  ultimately show ?thesis by (simp add: entry_name_def)
qed

lemma c_div_512: "0 \<le> a \<Longrightarrow> c_div a 512 = a div 512"
  by (rule c_div_nonneg)

lemma content_skip_length: "content_skip (int (length c)) = int (length (padded c))"
proof -
  have "c_div (int (length c) + 511) 512 = (int (length c) + 511) div 512"
    by (rule c_div_nonneg) simp
  also have "\<dots> = int ((length c + 511) div 512)"
    by (simp add: zdiv_int)
  finally show ?thesis by (simp add: content_skip_def length_padded)
qed

lemma fread_block:
  assumes "length blk = RECORD_SIZE"
  shows "fread \<lparr>bytes = pre @ blk @ post, offset = length pre\<rparr>
     = (blk, \<lparr>bytes = pre @ blk @ post, offset = length pre + RECORD_SIZE\<rparr>)"
  using assms by (simp add: fread_def Let_def)

lemma print_Nil: "print [] w = w"
  by (simp add: print_def)

lemma print_print: "print t (print s w) = print (s @ t) w"
  by (simp add: print_def)

lemma archivable_entry:
  assumes "archivable w name"
  obtains st where "fs w name = Some st"
    and "entry_bytes w name = tar_header name (int (length (contents st))) (st_mtime st) @ padded (contents st)"
    and "source_size w name = length (contents st)" and "source_contents w name = contents st"
    and "length (contents st) < 8 ^ 11"
  using assms
  by (auto simp: archivable_def accepted_def entry_bytes_def source_size_def source_contents_def
      split: option.splits)

lemma entry_header_facts:
  assumes "archivable w name" and "fs w name = Some st"
  shows "entry_name (tar_header name (int (length (contents st))) (st_mtime st)) = name"
    and "octal_to_long (drop 124 (tar_header name (int (length (contents st))) (st_mtime st))) 12
          = int (length (contents st))"
proof -
  show "entry_name (tar_header name (int (length (contents st))) (st_mtime st)) = name"
    using assms(1) by (simp add: archivable_def tar_header_name)
  have "length (contents st) < 8 ^ 11"
    using assms by (simp add: archivable_def source_size_def)
  then have "int (length (contents st)) < 8 ^ 11"
    by (metis of_nat_less_iff of_nat_numeral of_nat_power)
  then show "octal_to_long (drop 124 (tar_header name (int (length (contents st))) (st_mtime st))) 12
          = int (length (contents st))"
    by (intro tar_header_size) simp_all
qed

lemma list_loop_end:
  "list_loop \<lparr>bytes = pre @ replicate 1024 0, offset = length pre\<rparr> w = w"
proof -
  have "replicate 1024 (0::byte) = replicate 512 0 @ replicate 512 0"
    by (simp add: replicate_add[symmetric])
  then have "fread \<lparr>bytes = pre @ replicate 1024 0, offset = length pre\<rparr>
      = (replicate 512 0, \<lparr>bytes = pre @ replicate 1024 0, offset = length pre + 512\<rparr>)"
    using fread_block[of "replicate 512 0" pre "replicate 512 0"] by simp
  then show ?thesis
    using list_loop_unfold[of "\<lparr>bytes = pre @ replicate 1024 0, offset = length pre\<rparr>"]
      is_block_empty_zeros by simp
qed

lemma list_loop_entries:
  "\<forall>name\<in>set names. archivable w0 name \<Longrightarrow>
     list_loop \<lparr>bytes = pre @ concat (map (entry_bytes w0) names) @ replicate 1024 0,
                offset = length pre\<rparr> w
       = print (concat (map (list_line w0) names)) w"
proof (induction names arbitrary: pre w)
  case Nil
  show ?case using list_loop_end[of pre w] by (simp add: print_Nil)
next
  case (Cons name names)
  have a: "archivable w0 name" using Cons.prems by simp
  obtain st where st: "fs w0 name = Some st"
    and e: "entry_bytes w0 name = tar_header name (int (length (contents st))) (st_mtime st) @ padded (contents st)"
    and sz: "source_size w0 name = length (contents st)"
    using archivable_entry[OF a] by metis
  let ?hdr = "tar_header name (int (length (contents st))) (st_mtime st)"
  let ?post = "padded (contents st) @ concat (map (entry_bytes w0) names) @ replicate 1024 0"
  let ?bytes = "pre @ ?hdr @ ?post"
  have b: "pre @ concat (map (entry_bytes w0) (name # names)) @ replicate 1024 0 = ?bytes"
    by (simp add: e)
  have f: "fread \<lparr>bytes = ?bytes, offset = length pre\<rparr>
      = (?hdr, \<lparr>bytes = ?bytes, offset = length pre + 512\<rparr>)"
    by (rule fread_block[OF length_tar_header])
  have v: "is_valid_tar_header ?hdr" by (rule tar_header_valid)
  have ne: "\<not> is_block_empty ?hdr" by (rule valid_not_empty[OF v])
  have nm: "entry_name ?hdr = name" and s: "octal_to_long (drop 124 ?hdr) 12 = int (length (contents st))"
    using entry_header_facts[OF a st] by auto
  have k: "fseek_cur (content_skip (int (length (contents st)))) \<lparr>bytes = ?bytes, offset = length pre + 512\<rparr>
      = \<lparr>bytes = (pre @ ?hdr @ padded (contents st)) @ concat (map (entry_bytes w0) names) @ replicate 1024 0,
         offset = length (pre @ ?hdr @ padded (contents st))\<rparr>"
    by (simp add: content_skip_length fseek_cur_def length_tar_header)
  have ih: "list_loop \<lparr>bytes = (pre @ ?hdr @ padded (contents st)) @ concat (map (entry_bytes w0) names) @ replicate 1024 0,
         offset = length (pre @ ?hdr @ padded (contents st))\<rparr> (print (list_line w0 name) w)
       = print (concat (map (list_line w0) names)) (print (list_line w0 name) w)"
    using Cons.IH[of "pre @ ?hdr @ padded (contents st)" "print (list_line w0 name) w"] Cons.prems by simp
  have "list_loop \<lparr>bytes = ?bytes, offset = length pre\<rparr> w
      = list_loop (fseek_cur (content_skip (int (length (contents st)))) \<lparr>bytes = ?bytes, offset = length pre + 512\<rparr>)
          (print (list_line w0 name) w)"
    using list_loop_unfold[OF f, of w] v ne
    by (simp add: length_tar_header nm s list_line_def sz)
  then show ?case
    unfolding b k ih by (simp add: print_print)
qed

lemma example_names:
  "bytes_of ''a'' \<noteq> bytes_of ''b''" "bytes_of ''t.tar'' \<noteq> bytes_of ''a''"
  "bytes_of ''t.tar'' \<noteq> bytes_of ''b''" "bytes_of ''a'' \<noteq> []" "bytes_of ''b'' \<noteq> []"
  "bytes_of ''t.tar'' \<noteq> []" "bytes_of ''-cf'' \<noteq> bytes_of ''-tf''"
  "bytes_of ''-rf'' \<noteq> bytes_of ''-tf''" "bytes_of ''-rf'' \<noteq> bytes_of ''-cf''"
  "bytes_of ''-rf'' \<noteq> bytes_of ''-xf''" "bytes_of ''-xf'' \<noteq> bytes_of ''-tf''"
  by (simp_all add: bytes_of_def)

lemma example_fs:
  "fs example_world (bytes_of ''a'') = Some \<lparr>regular = True, st_mtime = 0, contents = bytes_of ''xyz''\<rparr>"
  "fs example_world (bytes_of ''b'') = Some \<lparr>regular = True, st_mtime = 0, contents = []\<rparr>"
  "fs example_world (bytes_of ''t.tar'') = None"
  using example_names by (simp_all add: example_world_def)

lemma example_accepted:
  "accepted example_world (bytes_of ''a'')" "accepted example_world (bytes_of ''b'')"
  using example_names by (simp_all add: accepted_def fopen_rb_def example_fs)

lemma example_archivable:
  "archivable example_world (bytes_of ''a'')" "archivable example_world (bytes_of ''b'')"
proof -
  have "list_all isprint (bytes_of ''a'')" "list_all isprint (bytes_of ''b'')"
    by (simp_all add: bytes_of_def isprint_def)
  moreover have "length (bytes_of ''a'') \<le> 100" "length (bytes_of ''b'') \<le> 100"
    by (simp_all add: bytes_of_def)
  moreover have "source_size example_world (bytes_of ''a'') = 3"
    "source_size example_world (bytes_of ''b'') = 0"
    by (simp_all add: source_size_def example_fs) (simp add: bytes_of_def)
  ultimately show "archivable example_world (bytes_of ''a'')" "archivable example_world (bytes_of ''b'')"
    using example_accepted by (simp_all add: archivable_def)
qed

lemma example_sizes:
  "source_size example_world (bytes_of ''a'') = 3" "source_size example_world (bytes_of ''b'') = 0"
  by (simp_all add: source_size_def example_fs) (simp add: bytes_of_def)

lemma example_lines:
  "list_line example_world (bytes_of ''a'') = bytes_of ''a (3 bytes)'' @ [0x0A]"
  "list_line example_world (bytes_of ''b'') = bytes_of ''b (0 bytes)'' @ [0x0A]"
  by (simp_all add: list_line_def example_sizes show_long_def dec_str.simps[of 3] dec_str.simps[of 0])
    (simp_all add: bytes_of_def)

lemma example_diag:
  "source_diag example_world (bytes_of ''a'') = Progress (bytes_of ''a'') 3"
  "source_diag example_world (bytes_of ''b'') = Progress (bytes_of ''b'') 0"
  using example_names by (simp_all add: source_diag_def fopen_rb_def example_fs) (simp add: bytes_of_def)

lemma example_create:
  "main [bytes_of ''tinytar'', bytes_of ''-cf'', bytes_of ''t.tar'', bytes_of ''a'', bytes_of ''b'']
       example_world =
   Some (0, example_world
     \<lparr>fs := (fs example_world)(bytes_of ''t.tar'' \<mapsto>
         \<lparr>regular = True, st_mtime = clock example_world,
          contents = archive_bytes example_world [bytes_of ''a'', bytes_of ''b'']\<rparr>),
      stderr := stderr example_world @ [Progress (bytes_of ''a'') 3, Progress (bytes_of ''b'') 0]\<rparr>)"
proof -
  have o: "fopen_wb example_world (bytes_of ''t.tar'') \<noteq> None"
    using example_names by (simp add: fopen_wb_def example_fs)
  have n: "bytes_of ''t.tar'' \<notin> set [bytes_of ''a'', bytes_of ''b'']"
    using example_names by simp
  show ?thesis
    using create_result[OF o n, of "bytes_of ''tinytar''" "bytes_of ''-cf''"] example_names
    by (simp add: main_def exit_status_def example_diag)
qed

lemma example_length:
  "length (archive_bytes example_world [bytes_of ''a'', bytes_of ''b'']) = 2560"
  by (simp add: length_archive_bytes example_accepted example_sizes)

lemma example_list:
  assumes "fs w (bytes_of ''t.tar'') = Some nd"
    and "contents nd = archive_bytes example_world [bytes_of ''a'', bytes_of ''b'']"
  shows "main [bytes_of ''tinytar'', bytes_of ''-tf'', bytes_of ''t.tar''] w
    = Some (0, print (bytes_of ''a (3 bytes)'' @ [0x0A] @ bytes_of ''b (0 bytes)'' @ [0x0A]) w)"
proof -
  let ?names = "[bytes_of ''a'', bytes_of ''b'']"
  have a: "\<forall>name\<in>set ?names. archivable example_world name"
    using example_archivable by simp
  have "list_loop \<lparr>bytes = [] @ concat (map (entry_bytes example_world) ?names) @ replicate 1024 0,
                offset = length ([] :: byte list)\<rparr> w
       = print (concat (map (list_line example_world) ?names)) w"
    by (rule list_loop_entries[OF a])
  then have "list_loop \<lparr>bytes = contents nd, offset = 0\<rparr> w
       = print (bytes_of ''a (3 bytes)'' @ [0x0A] @ bytes_of ''b (0 bytes)'' @ [0x0A]) w"
    by (simp add: assms(2) archive_bytes_def example_accepted example_lines)
  then show ?thesis
    using assms(1) example_names
    by (simp add: main_def mode_list_def fopen_rb_def exit_status_def)
qed

subsection \<open>C6: the example\<close>

text \<open>
  C6, as amended. Creating an archive from the two files \<^verbatim>\<open>a\<close> (the three bytes
  \<^verbatim>\<open>"xyz"\<close>) and \<^verbatim>\<open>b\<close> (empty) returns with status 0 and produces an archive of
  2560 bytes: a header and one content block for \<^verbatim>\<open>a\<close>, a header for \<^verbatim>\<open>b\<close>, and the
  two zero blocks. Listing that archive returns with status 0 and prints
  \<^verbatim>\<open>a (3 bytes)\<close> and \<^verbatim>\<open>b (0 bytes)\<close>, in that order, each on its line.
\<close>

theorem example_archive:
  "\<exists>w1 nd.
     main [bytes_of ''tinytar'', bytes_of ''-cf'', bytes_of ''t.tar'', bytes_of ''a'', bytes_of ''b'']
       example_world = Some (0, w1)
     \<and> fs w1 (bytes_of ''t.tar'') = Some nd \<and> length (contents nd) = 2560
     \<and> main [bytes_of ''tinytar'', bytes_of ''-tf'', bytes_of ''t.tar''] w1
         = Some (0, print (bytes_of ''a (3 bytes)'' @ [0x0A] @ bytes_of ''b (0 bytes)'' @ [0x0A]) w1)"
proof -
  let ?nd = "\<lparr>regular = True, st_mtime = clock example_world,
          contents = archive_bytes example_world [bytes_of ''a'', bytes_of ''b'']\<rparr>"
  let ?w1 = "example_world
     \<lparr>fs := (fs example_world)(bytes_of ''t.tar'' \<mapsto> ?nd),
      stderr := stderr example_world @ [Progress (bytes_of ''a'') 3, Progress (bytes_of ''b'') 0]\<rparr>"
  have f: "fs ?w1 (bytes_of ''t.tar'') = Some ?nd" by simp
  have c: "contents ?nd = archive_bytes example_world [bytes_of ''a'', bytes_of ''b'']" by simp
  have l: "length (contents ?nd) = 2560" using example_length by simp
  show ?thesis
    using example_create f l example_list[OF f c] by blast
qed

text \<open>
  C6 as stated fails: the length of the archive created in the example is not 3072.
\<close>

theorem example_archive_counterexample:
  "main [bytes_of ''tinytar'', bytes_of ''-cf'', bytes_of ''t.tar'', bytes_of ''a'', bytes_of ''b'']
       example_world =
   Some (0, example_world
     \<lparr>fs := (fs example_world)(bytes_of ''t.tar'' \<mapsto>
         \<lparr>regular = True, st_mtime = clock example_world,
          contents = archive_bytes example_world [bytes_of ''a'', bytes_of ''b'']\<rparr>),
      stderr := stderr example_world @ [Progress (bytes_of ''a'') 3, Progress (bytes_of ''b'') 0]\<rparr>)
   \<and> length (archive_bytes example_world [bytes_of ''a'', bytes_of ''b'']) \<noteq> 3072"
  using example_create example_length by simp

subsection \<open>The scan of an archive without terminator\<close>






subsection \<open>C8: appending to an archive that lost its terminator\<close>



subsection \<open>Extracting a written archive\<close>

lemma extract_data_unfold:
  assumes "fread tar = (chunk, tar1)" and "0 < remaining"
  shows "extract_data tar rec out remaining =
     extract_data tar1 (into_record chunk rec)
       (fwrite (take (nat (if remaining > 512 then 512 else remaining)) (into_record chunk rec)) out)
       (remaining - (if remaining > 512 then 512 else remaining))"
  using assms by (subst extract_data.simps) (simp add: Let_def)

lemma extract_data_content:
  "offset out = length (bytes out) \<Longrightarrow> n = length c \<Longrightarrow>
     fst (extract_data \<lparr>bytes = pre @ padded c @ post, offset = length pre\<rparr> rec out (int n))
       = \<lparr>bytes = pre @ padded c @ post, offset = length pre + length (padded c)\<rparr>
     \<and> snd (snd (extract_data \<lparr>bytes = pre @ padded c @ post, offset = length pre\<rparr> rec out (int n)))
       = \<lparr>bytes = bytes out @ c, offset = length (bytes out) + length c\<rparr>"
proof (induction n arbitrary: c pre rec out rule: less_induct)
  case (less n)
  show ?case
  proof (cases "c = []")
    case True
    then have "n = 0" using less.prems by simp
    then show ?thesis using True less.prems(1)
      by (simp add: extract_data.simps[of _ _ _ 0] padded_Nil)
  next
    case False
    let ?d = "take 512 c"
    let ?blk = "?d @ replicate (512 - length ?d) 0"
    let ?c' = "drop 512 c"
    let ?tar = "\<lparr>bytes = pre @ padded c @ post, offset = length pre\<rparr>"
    let ?to_read = "if int n > 512 then 512 else int n"
    have p: "padded c = ?blk @ padded ?c'" using padded_step[OF False] by simp
    have lb: "length ?blk = 512" by simp
    have b: "pre @ padded c @ post = pre @ ?blk @ (padded ?c' @ post)" using p by simp
    have f: "fread ?tar = (?blk, \<lparr>bytes = pre @ ?blk @ (padded ?c' @ post), offset = length pre + 512\<rparr>)"
      unfolding b by (rule fread_block[OF lb])
    have pos: "0 < int n" using False less.prems(2) by simp
    have tr: "nat ?to_read = length ?d" using less.prems(2) by (simp add: min_def)
    have w: "take (nat ?to_read) (into_record ?blk rec) = ?d"
      unfolding tr by (simp add: into_record_def min_def)
    have r: "int n - ?to_read = int (length ?c')" using less.prems(2) by simp
    let ?out1 = "\<lparr>bytes = bytes out @ ?d, offset = length (bytes out) + length ?d\<rparr>"
    have o1: "fwrite ?d out = ?out1" by (rule fwrite_at_end[OF less.prems(1)])
    let ?tar1 = "\<lparr>bytes = (pre @ ?blk) @ padded ?c' @ post, offset = length (pre @ ?blk)\<rparr>"
    have t1: "\<lparr>bytes = pre @ ?blk @ (padded ?c' @ post), offset = length pre + 512\<rparr> = ?tar1"
      by simp
    have e: "extract_data ?tar rec out (int n)
        = extract_data ?tar1 (into_record ?blk rec) ?out1 (int (length ?c'))"
      using extract_data_unfold[OF f pos, of rec out] unfolding w r o1 t1 .
    have lt: "length ?c' < n" using False less.prems(2) by (cases c) simp_all
    have q: "offset ?out1 = length (bytes ?out1)" by simp
    have ih: "fst (extract_data ?tar1 (into_record ?blk rec) ?out1 (int (length ?c')))
         = \<lparr>bytes = (pre @ ?blk) @ padded ?c' @ post, offset = length (pre @ ?blk) + length (padded ?c')\<rparr>
       \<and> snd (snd (extract_data ?tar1 (into_record ?blk rec) ?out1 (int (length ?c'))))
         = \<lparr>bytes = bytes ?out1 @ ?c', offset = length (bytes ?out1) + length ?c'\<rparr>"
      by (rule less.IH[OF lt q refl])
    have lp: "length (padded c) = 512 + length (padded ?c')"
      by (subst p) simp
    show ?thesis
      unfolding e using ih b lp by (simp add: min_def)
  qed
qed


lemma extract_loop_end:
  "extract_loop \<lparr>bytes = pre @ replicate 1024 0, offset = length pre\<rparr> w = w"
proof -
  have "replicate 1024 (0::byte) = replicate 512 0 @ replicate 512 0"
    by (simp add: replicate_add[symmetric])
  then have "fread \<lparr>bytes = pre @ replicate 1024 0, offset = length pre\<rparr>
      = (replicate 512 0, \<lparr>bytes = pre @ replicate 1024 0, offset = length pre + 512\<rparr>)"
    using fread_block[of "replicate 512 0" pre "replicate 512 0"] by simp
  then show ?thesis
    using extract_loop_unfold[of "\<lparr>bytes = pre @ replicate 1024 0, offset = length pre\<rparr>"]
      is_block_empty_zeros by simp
qed

lemma fopen_wb_iff:
  "fopen_wb w n \<noteq> None \<longleftrightarrow> n \<noteq> [] \<and> (case fs w n of None \<Rightarrow> True | Some nd \<Rightarrow> regular nd)"
  by (simp add: fopen_wb_def split: option.splits)

lemma fs_extracted:
  "fs (extracted w0 w name) =
     (fs w)(name \<mapsto> \<lparr>regular = True, st_mtime = clock w, contents = source_contents w0 name\<rparr>)"
  by (simp add: extracted_def store_def print_def)

lemma clock_extracted: "clock (extracted w0 w name) = clock w"
  by (simp add: extracted_def store_def print_def)

lemma fopen_wb_extracted:
  "fopen_wb w n \<noteq> None \<Longrightarrow> fopen_wb (extracted w0 w name) n \<noteq> None"
  unfolding fopen_wb_iff by (simp add: fs_extracted)

lemma extract_loop_entries:
  "\<forall>name\<in>set names. archivable w0 name \<Longrightarrow> \<forall>name\<in>set names. fopen_wb w name \<noteq> None \<Longrightarrow>
     extract_loop \<lparr>bytes = pre @ concat (map (entry_bytes w0) names) @ replicate 1024 0,
                   offset = length pre\<rparr> w
       = foldl (extracted w0) w names"
proof (induction names arbitrary: pre w)
  case Nil
  show ?case using extract_loop_end[of pre w] by simp
next
  case (Cons name names)
  have a: "archivable w0 name" using Cons.prems(1) by simp
  obtain st where st: "fs w0 name = Some st"
    and e: "entry_bytes w0 name = tar_header name (int (length (contents st))) (st_mtime st) @ padded (contents st)"
    and sz: "source_size w0 name = length (contents st)"
    and sc: "source_contents w0 name = contents st"
    using archivable_entry[OF a] by metis
  let ?c = "contents st"
  let ?hdr = "tar_header name (int (length ?c)) (st_mtime st)"
  let ?rest = "concat (map (entry_bytes w0) names) @ replicate 1024 0"
  let ?bytes = "pre @ ?hdr @ padded ?c @ ?rest"
  have b: "pre @ concat (map (entry_bytes w0) (name # names)) @ replicate 1024 0 = ?bytes"
    by (simp add: e)
  define tar1 where "tar1 = \<lparr>bytes = (pre @ ?hdr) @ padded ?c @ ?rest, offset = length (pre @ ?hdr)\<rparr>"
  have f: "fread \<lparr>bytes = ?bytes, offset = length pre\<rparr> = (?hdr, tar1)"
    using fread_block[where blk = ?hdr and pre = pre and post = "padded ?c @ ?rest"]
    by (simp add: length_tar_header tar1_def)
  have v: "is_valid_tar_header ?hdr" by (rule tar_header_valid)
  have ne: "\<not> is_block_empty ?hdr" by (rule valid_not_empty[OF v])
  have nm: "entry_name ?hdr = name" and s: "octal_to_long (drop 124 ?hdr) 12 = int (length ?c)"
    using entry_header_facts[OF a st] by auto
  let ?out = "\<lparr>bytes = [], offset = 0\<rparr>"
  have o: "fopen_wb w name = Some (?out, store name [] w)"
    using Cons.prems(2) by (intro fopen_wb_Some) simp
  define x where "x = extract_data tar1 ?hdr ?out (int (length ?c))"
  have d: "fst x = \<lparr>bytes = (pre @ ?hdr) @ padded ?c @ ?rest, offset = length (pre @ ?hdr) + length (padded ?c)\<rparr>
      \<and> snd (snd x) = \<lparr>bytes = bytes ?out @ ?c, offset = length (bytes ?out) + length ?c\<rparr>"
    unfolding x_def tar1_def by (rule extract_data_content) simp_all
  let ?tar2 = "\<lparr>bytes = (pre @ ?hdr @ padded ?c) @ ?rest, offset = length (pre @ ?hdr @ padded ?c)\<rparr>"
  have d1: "fst x = ?tar2" using d by simp
  have d2: "bytes (snd (snd x)) = ?c" using d by simp
  let ?w1 = "extracted w0 w name"
  have w1: "fclose_written name (snd (snd x))
        (print (name @ bytes_of '' ('' @ show_long (int (length ?c)) @ bytes_of '')'' @ [0x0A])
           (store name [] w)) = ?w1"
    by (simp add: fclose_written_def d2 extracted_def extract_line_def sz sc)
  have "extract_loop \<lparr>bytes = ?bytes, offset = length pre\<rparr> w
      = (case x of (tar2, rec2, out2) \<Rightarrow>
           extract_loop tar2
             (fclose_written name out2
                (print (name @ bytes_of '' ('' @ show_long (int (length ?c)) @ bytes_of '')'' @ [0x0A])
                   (store name [] w))))"
    using extract_loop_unfold[OF f, of w] v ne
    by (simp add: length_tar_header nm s o x_def)
  then have step: "extract_loop \<lparr>bytes = ?bytes, offset = length pre\<rparr> w = extract_loop ?tar2 ?w1"
    by (simp add: case_prod_beta d1 w1)
  have p2: "\<forall>n\<in>set names. fopen_wb ?w1 n \<noteq> None"
    using Cons.prems(2) fopen_wb_extracted by simp
  have ih: "extract_loop ?tar2 ?w1 = foldl (extracted w0) ?w1 names"
    using Cons.IH[of ?w1 "pre @ ?hdr @ padded ?c"] Cons.prems(1) p2 by simp
  show ?case
    unfolding b step ih by simp
qed

lemma fs_foldl_extracted:
  "fs (foldl (extracted w0) w names) n =
     (if n \<in> set names
      then Some \<lparr>regular = True, st_mtime = clock w, contents = source_contents w0 n\<rparr>
      else fs w n)"
proof (induction names arbitrary: w)
  case Nil
  show ?case by simp
next
  case (Cons name names)
  show ?case
    using Cons[of "extracted w0 w name"]
    by (simp add: fs_extracted clock_extracted)
qed

lemma all_accepted:
  "\<forall>name\<in>set names. archivable w name \<Longrightarrow> filter (accepted w) names = names"
  by (simp add: archivable_def filter_id_conv)

subsection \<open>C2: the round trip\<close>

text \<open>
  C2. Let the archive be creatable and not one of the sources, and let every source be
  an accepted file (it opens and is regular) with a name of at most 100 printable bytes
  and fewer than \<open>8 ^ 11\<close> bytes of contents, whatever the bytes. Then creating the
  archive returns; and in every world that holds this archive and in which the names of
  the sources can be created, extracting the archive returns and leaves, for each source,
  a regular file of that name with exactly the contents of the source.
\<close>

theorem create_extract_round_trip:
  assumes "fopen_wb w archive \<noteq> None" and "archive \<notin> set sources"
    and "\<forall>name\<in>set sources. archivable w name"
  shows "\<exists>w1. mode_create_append False (prog # flag # archive # sources) w = Some (Returned, w1)
    \<and> (\<forall>w2. fs w2 archive = fs w1 archive \<and> (\<forall>name\<in>set sources. fopen_wb w2 name \<noteq> None)
          \<longrightarrow> (\<exists>w3. mode_extract archive w2 = (Returned, w3)
                \<and> (\<forall>name\<in>set sources. \<exists>nd. fs w3 name = Some nd \<and> regular nd
                       \<and> contents nd = source_contents w name)))"
proof -
  let ?nd = "\<lparr>regular = True, st_mtime = clock w, contents = archive_bytes w sources\<rparr>"
  let ?w1 = "w\<lparr>fs := (fs w)(archive \<mapsto> ?nd), stderr := stderr w @ map (source_diag w) sources\<rparr>"
  have c: "mode_create_append False (prog # flag # archive # sources) w = Some (Returned, ?w1)"
    by (rule create_result[OF assms(1,2)])
  have ne: "archive \<noteq> []" using assms(1) unfolding fopen_wb_iff by simp
  have ab: "archive_bytes w sources = [] @ concat (map (entry_bytes w) sources) @ replicate 1024 0"
    by (simp add: archive_bytes_def all_accepted[OF assms(3)])
  have x: "\<exists>w3. mode_extract archive w2 = (Returned, w3)
                \<and> (\<forall>name\<in>set sources. \<exists>nd. fs w3 name = Some nd \<and> regular nd
                       \<and> contents nd = source_contents w name)"
    if h: "fs w2 archive = fs ?w1 archive" "\<forall>name\<in>set sources. fopen_wb w2 name \<noteq> None" for w2
  proof -
    have o: "fopen_rb w2 archive = Some \<lparr>bytes = archive_bytes w sources, offset = 0\<rparr>"
      using h(1) ne by (simp add: fopen_rb_def)
    have "extract_loop \<lparr>bytes = [] @ concat (map (entry_bytes w) sources) @ replicate 1024 0,
                   offset = length ([] :: byte list)\<rparr> w2 = foldl (extracted w) w2 sources"
      by (rule extract_loop_entries[OF assms(3) h(2)])
    then have "mode_extract archive w2 = (Returned, foldl (extracted w) w2 sources)"
      using o by (simp add: mode_extract_def ab)
    then show ?thesis by (simp add: fs_foldl_extracted)
  qed
  show ?thesis using c x by blast
qed

theorem create_extract_round_trip_witness:
  "fopen_wb example_world (bytes_of ''t.tar'') \<noteq> None
   \<and> bytes_of ''t.tar'' \<notin> set [bytes_of ''a'', bytes_of ''b'']
   \<and> archivable example_world (bytes_of ''a'') \<and> archivable example_world (bytes_of ''b'')
   \<and> (\<exists>w1 w3.
         mode_create_append False
           [bytes_of ''tinytar'', bytes_of ''-cf'', bytes_of ''t.tar'', bytes_of ''a'', bytes_of ''b'']
           example_world = Some (Returned, w1)
       \<and> mode_extract (bytes_of ''t.tar'')
            (w1\<lparr>fs := (fs w1)(bytes_of ''a'' := None, bytes_of ''b'' := None)\<rparr>) = (Returned, w3)
       \<and> (\<exists>nd. fs w3 (bytes_of ''a'') = Some nd \<and> regular nd \<and> contents nd = bytes_of ''xyz'')
       \<and> (\<exists>nd. fs w3 (bytes_of ''b'') = Some nd \<and> regular nd \<and> contents nd = []))"
proof -
  have h1: "fopen_wb example_world (bytes_of ''t.tar'') \<noteq> None"
    using example_names unfolding fopen_wb_iff by (simp add: example_fs)
  have h2: "bytes_of ''t.tar'' \<notin> set [bytes_of ''a'', bytes_of ''b'']"
    using example_names by simp
  have h3: "\<forall>name\<in>set [bytes_of ''a'', bytes_of ''b'']. archivable example_world name"
    using example_archivable by simp
  obtain w1 where c: "mode_create_append False
           [bytes_of ''tinytar'', bytes_of ''-cf'', bytes_of ''t.tar'', bytes_of ''a'', bytes_of ''b'']
           example_world = Some (Returned, w1)"
    and x: "\<And>w2. fs w2 (bytes_of ''t.tar'') = fs w1 (bytes_of ''t.tar'') \<Longrightarrow>
          \<forall>name\<in>set [bytes_of ''a'', bytes_of ''b'']. fopen_wb w2 name \<noteq> None \<Longrightarrow>
          \<exists>w3. mode_extract (bytes_of ''t.tar'') w2 = (Returned, w3)
                \<and> (\<forall>name\<in>set [bytes_of ''a'', bytes_of ''b'']. \<exists>nd. fs w3 name = Some nd \<and> regular nd
                       \<and> contents nd = source_contents example_world name)"
    using create_extract_round_trip[OF h1 h2 h3, of "bytes_of ''tinytar''" "bytes_of ''-cf''"]
    by blast
  let ?w2 = "w1\<lparr>fs := (fs w1)(bytes_of ''a'' := None, bytes_of ''b'' := None)\<rparr>"
  have t: "fs ?w2 (bytes_of ''t.tar'') = fs w1 (bytes_of ''t.tar'')"
    using example_names by simp
  have o: "\<forall>name\<in>set [bytes_of ''a'', bytes_of ''b'']. fopen_wb ?w2 name \<noteq> None"
    using example_names unfolding fopen_wb_iff by simp
  have s: "source_contents example_world (bytes_of ''a'') = bytes_of ''xyz''"
    "source_contents example_world (bytes_of ''b'') = []"
    by (simp_all add: source_contents_def example_fs)
  show ?thesis
    using x[OF t o] c h1 h2 example_archivable s by auto
qed

subsection \<open>The append scan of the earlier revision\<close>

lemma find_append_loop_old_unfold:
  assumes "fread fp = (chunk, fp1)"
  shows "find_append_loop_old fp =
     (if length chunk = RECORD_SIZE then
        (case scan_block_old chunk fp1 of Return r \<Rightarrow> r | Continue fp' \<Rightarrow> find_append_loop_old fp')
      else ftell fp1)"
  using assms by (subst find_append_loop_old.simps) simp

lemma look_ahead_old_false_alarm:
  assumes "fread fp = (chunk, fp2)" and "length chunk = RECORD_SIZE" and "\<not> is_block_empty chunk"
    and "length rec = RECORD_SIZE"
  shows "look_ahead_old rec fp = False_alarm chunk fp"
proof -
  have "fseek_cur (- 512) fp2 = fp"
    using fread_full_state[OF assms(1,2)] by (simp add: fseek_cur_def)
  then show ?thesis
    using assms by (simp add: look_ahead_old_def Let_def into_record_full)
qed







subsection \<open>C3: the false alarm\<close>

text \<open>
  The pass after a false alarm: the look-ahead has read a whole block that is not empty
  and has sought back one block, so the stream is at the start of that block while the
  block is already in the buffer; the pass then treats the buffer like a block read at
  the head of the loop.
\<close>

lemma false_alarm_pass:
  assumes "is_block_empty rec" and "length rec = RECORD_SIZE"
    and "fread fp = (chunk, fp2)" and "length chunk = RECORD_SIZE" and "\<not> is_block_empty chunk"
  shows "scan_block rec fp = scan_entry chunk fp"
    and "scan_block_old rec fp = scan_entry_old chunk fp"
  using assms(1) look_ahead_false_alarm[OF assms(3,4,5,2)] look_ahead_old_false_alarm[OF assms(3,4,5,2)]
  by (simp_all add: scan_block_def scan_block_old_def)

lemma octal_to_int32_field_3:
  "octal_to_int32 (drop 124 (tar_header filename 3 mtime)) 12 = 3"
proof -
  have "take 12 (drop 124 (tar_header filename 3 mtime)) = long_to_octal 12 3"
  proof -
    have "take 12 (drop 124 (tar_header filename 3 mtime))
        = drop 124 (take 136 (tar_header filename 3 mtime))"
      by (simp add: drop_take)
    also have "\<dots> = drop 124 (take 136 (header_blank filename 3 mtime))"
      by (simp add: tar_header_take)
    also have "\<dots> = long_to_octal 12 3"
      using header_blank_size[of filename 3 mtime] by (simp add: drop_take)
    finally show ?thesis .
  qed
  moreover have "long_to_octal 12 3 = replicate 10 0x30 @ [0x33, 0]"
    by (simp add: long_to_octal_def pad_octal_def ulong_of_def octal_str.simps[of 3])
  ultimately have t: "take 12 (drop 124 (tar_header filename 3 mtime)) = replicate 10 0x30 @ [0x33, 0]"
    by simp
  have k: "octal_loop32 (replicate k (0x30::byte) @ [0x33, 0]) (k + 2) 0 = 3" for k
    by (induction k) (simp_all add: int32_wrap_def)
  have "octal_loop32 (replicate 10 (0x30::byte) @ [0x33, 0]) 12 0 = 3"
    using k[of 10] by simp
  then have "foldl (\<lambda>v c. int32_wrap (v * 8 + (uint c - 0x30))) 0
       (filter (\<lambda>c. 0x30 \<le> c \<and> c \<le> 0x37)
         (takeWhile (\<lambda>c. c \<noteq> 0) (replicate 10 (0x30::byte) @ [0x33, 0]))) = 3"
    unfolding octal_loop32_filter by simp
  then show ?thesis
    unfolding octal_to_int32_def octal_loop32_filter t .
qed

lemma xyz_block:
  "padded (bytes_of ''xyz'') = [0x78, 0x79, 0x7A] @ replicate 509 0"
  by (simp add: padded_def bytes_of_def)

lemma xyz_block_facts:
  "length (padded (bytes_of ''xyz'')) = RECORD_SIZE"
  "\<not> is_block_empty (padded (bytes_of ''xyz''))"
  "\<not> is_valid_tar_header (padded (bytes_of ''xyz''))"
proof -
  show "length (padded (bytes_of ''xyz'')) = RECORD_SIZE" by (simp add: xyz_block)
  show "\<not> is_block_empty (padded (bytes_of ''xyz''))" by (simp add: xyz_block is_block_empty_def)
  have "take 5 (drop 257 (padded (bytes_of ''xyz''))) = replicate 5 0" by (simp add: xyz_block)
  also have "\<dots> = [0, 0, 0, 0, 0]" by (simp add: eval_nat_numeral)
  finally show "\<not> is_valid_tar_header (padded (bytes_of ''xyz''))"
    by (simp add: is_valid_tar_header_def ustar_bytes)
qed

lemma skip_3:
  "scan_entry (tar_header filename 3 mtime) fp = Continue (fp\<lparr>offset := offset fp + 512\<rparr>)"
  "scan_entry_old (tar_header filename 3 mtime) fp = Continue (fp\<lparr>offset := offset fp + 512\<rparr>)"
proof -
  have s: "octal_to_long (drop 124 (tar_header filename 3 mtime)) 12 = 3"
    by (rule tar_header_size) simp_all
  have k: "c_div 514 512 = 1" by (simp add: c_div_def)
  have n: "nat (int (offset fp) + 512) = offset fp + 512" by linarith
  show "scan_entry (tar_header filename 3 mtime) fp = Continue (fp\<lparr>offset := offset fp + 512\<rparr>)"
    using tar_header_valid[of filename 3 mtime] n
    by (simp add: scan_entry_def Let_def s k fseek_cur_def)
  have ko: "uint32_of (511 + uint32_of 3) AND uint32_of (- 512) = 512"
    by (simp add: uint32_of_def and_mask_512 drop_bit_eq_div push_bit_eq_mult take_bit_eq_mod)
  show "scan_entry_old (tar_header filename 3 mtime) fp = Continue (fp\<lparr>offset := offset fp + 512\<rparr>)"
    using tar_header_valid[of filename 3 mtime] n
    by (simp add: scan_entry_old_def Let_def octal_to_int32_field_3 ko fseek_cur_def)
qed


lemma zero_terminator: "replicate 1024 (0::byte) = replicate 512 0 @ replicate 512 0"
  by (simp add: replicate_add[symmetric])

lemma entry_scan:
  fixes filename :: "byte list" and mtime :: int
  defines "b \<equiv> tar_header filename 3 mtime @ padded (bytes_of ''xyz'') @ replicate 1024 0"
  shows "find_append_position \<lparr>bytes = b, offset = 0\<rparr> = 1024"
    and "find_append_position_old \<lparr>bytes = b, offset = 0\<rparr> = 1024"
proof -
  let ?h = "tar_header filename 3 mtime"
  let ?c = "padded (bytes_of ''xyz'')"
  have r0: "fread \<lparr>bytes = b, offset = 0\<rparr> = (?h, \<lparr>bytes = b, offset = 512\<rparr>)"
    using fread_block[where blk = ?h and pre = "[]" and post = "?c @ replicate 1024 0"]
    by (simp add: b_def length_tar_header)
  have r2: "fread \<lparr>bytes = b, offset = 1024\<rparr> = (replicate 512 0, \<lparr>bytes = b, offset = 1536\<rparr>)"
    using fread_block[where blk = "replicate 512 0" and pre = "?h @ ?c" and post = "replicate 512 0"]
    by (simp add: b_def length_tar_header xyz_block_facts(1) zero_terminator)
  have r3: "fread \<lparr>bytes = b, offset = 1536\<rparr> = (replicate 512 0, \<lparr>bytes = b, offset = 2048\<rparr>)"
    using fread_block[where blk = "replicate 512 0" and pre = "?h @ ?c @ replicate 512 0" and post = "[]"]
    by (simp add: b_def length_tar_header xyz_block_facts(1) zero_terminator)
  have ne: "\<not> is_block_empty ?h" by (rule valid_not_empty[OF tar_header_valid])
  have e: "scan_block ?h \<lparr>bytes = b, offset = 512\<rparr> = Continue \<lparr>bytes = b, offset = 1024\<rparr>"
    using ne skip_3(1)[of filename mtime "\<lparr>bytes = b, offset = 512\<rparr>"] by (simp add: scan_block_def)
  have eo: "scan_block_old ?h \<lparr>bytes = b, offset = 512\<rparr> = Continue \<lparr>bytes = b, offset = 1024\<rparr>"
    using ne skip_3(2)[of filename mtime "\<lparr>bytes = b, offset = 512\<rparr>"] by (simp add: scan_block_old_def)
  have la: "look_ahead (replicate 512 0) \<lparr>bytes = b, offset = 1536\<rparr> = Confirmed 1024"
    using r3 is_block_empty_zeros by (simp add: look_ahead_def into_record_def ftell_def)
  have lao: "look_ahead_old (replicate 512 0) \<lparr>bytes = b, offset = 1536\<rparr> = Confirmed 1024"
    using r3 is_block_empty_zeros by (simp add: look_ahead_old_def into_record_def ftell_def uint32_of_def)
  have "find_append_loop \<lparr>bytes = b, offset = 1024\<rparr> = 1024"
    using find_append_loop_unfold[OF r2] la is_block_empty_zeros by (simp add: scan_block_def)
  then have "find_append_loop \<lparr>bytes = b, offset = 0\<rparr> = 1024"
    using find_append_loop_unfold[OF r0] e by (simp add: length_tar_header)
  then show "find_append_position \<lparr>bytes = b, offset = 0\<rparr> = 1024"
    by (simp add: find_append_position_def fseek_set_def)
  have "find_append_loop_old \<lparr>bytes = b, offset = 1024\<rparr> = 1024"
    using find_append_loop_old_unfold[OF r2] lao is_block_empty_zeros by (simp add: scan_block_old_def)
  then have "find_append_loop_old \<lparr>bytes = b, offset = 0\<rparr> = 1024"
    using find_append_loop_old_unfold[OF r0] eo by (simp add: length_tar_header)
  then show "find_append_position_old \<lparr>bytes = b, offset = 0\<rparr> = 1024"
    by (simp add: find_append_position_old_def fseek_set_def)
qed

lemma zero_block_entry_scan:
  fixes filename :: "byte list" and mtime :: int
  defines "b \<equiv> replicate 512 0 @ tar_header filename 3 mtime @ padded (bytes_of ''xyz'') @ replicate 1024 0"
  shows "scan_block (replicate 512 0) \<lparr>bytes = b, offset = 512\<rparr> = Continue \<lparr>bytes = b, offset = 1024\<rparr>"
    and "scan_block_old (replicate 512 0) \<lparr>bytes = b, offset = 512\<rparr> = Continue \<lparr>bytes = b, offset = 1024\<rparr>"
    and "find_append_position \<lparr>bytes = b, offset = 0\<rparr> = - 1"
    and "find_append_position_old \<lparr>bytes = b, offset = 0\<rparr> = - 1"
proof -
  let ?h = "tar_header filename 3 mtime"
  let ?c = "padded (bytes_of ''xyz'')"
  have r0: "fread \<lparr>bytes = b, offset = 0\<rparr> = (replicate 512 0, \<lparr>bytes = b, offset = 512\<rparr>)"
    using fread_block[where blk = "replicate 512 0" and pre = "[]" and post = "?h @ ?c @ replicate 1024 0"]
    by (simp add: b_def)
  have r1: "fread \<lparr>bytes = b, offset = 512\<rparr> = (?h, \<lparr>bytes = b, offset = 1024\<rparr>)"
    using fread_block[where blk = ?h and pre = "replicate 512 0" and post = "?c @ replicate 1024 0"]
    by (simp add: b_def length_tar_header)
  have r2: "fread \<lparr>bytes = b, offset = 1024\<rparr> = (?c, \<lparr>bytes = b, offset = 1536\<rparr>)"
    using fread_block[where blk = ?c and pre = "replicate 512 0 @ ?h" and post = "replicate 1024 0"]
    by (simp add: b_def length_tar_header xyz_block_facts(1))
  have ne: "\<not> is_block_empty ?h" by (rule valid_not_empty[OF tar_header_valid])
  have z: "length (replicate 512 (0::byte)) = RECORD_SIZE" by simp
  note p = false_alarm_pass[OF is_block_empty_zeros z r1 length_tar_header ne]
  show e: "scan_block (replicate 512 0) \<lparr>bytes = b, offset = 512\<rparr> = Continue \<lparr>bytes = b, offset = 1024\<rparr>"
    unfolding p(1) using skip_3(1)[of filename mtime "\<lparr>bytes = b, offset = 512\<rparr>"] by simp
  show eo: "scan_block_old (replicate 512 0) \<lparr>bytes = b, offset = 512\<rparr> = Continue \<lparr>bytes = b, offset = 1024\<rparr>"
    unfolding p(2) using skip_3(2)[of filename mtime "\<lparr>bytes = b, offset = 512\<rparr>"] by simp
  have c: "scan_block ?c \<lparr>bytes = b, offset = 1536\<rparr> = Return (- 1)"
    using xyz_block_facts(2,3) by (simp add: scan_block_def scan_entry_def)
  have co: "scan_block_old ?c \<lparr>bytes = b, offset = 1536\<rparr> = Return (- 1)"
    using xyz_block_facts(2,3) by (simp add: scan_block_old_def scan_entry_old_def)
  have "find_append_loop \<lparr>bytes = b, offset = 1024\<rparr> = - 1"
    using find_append_loop_unfold[OF r2] c by (simp add: xyz_block_facts(1))
  then have "find_append_loop \<lparr>bytes = b, offset = 0\<rparr> = - 1"
    using find_append_loop_unfold[OF r0] e by simp
  then show "find_append_position \<lparr>bytes = b, offset = 0\<rparr> = - 1"
    by (simp add: find_append_position_def fseek_set_def)
  have "find_append_loop_old \<lparr>bytes = b, offset = 1024\<rparr> = - 1"
    using find_append_loop_old_unfold[OF r2] co by (simp add: xyz_block_facts(1))
  then have "find_append_loop_old \<lparr>bytes = b, offset = 0\<rparr> = - 1"
    using find_append_loop_old_unfold[OF r0] eo by simp
  then show "find_append_position_old \<lparr>bytes = b, offset = 0\<rparr> = - 1"
    by (simp add: find_append_position_old_def fseek_set_def)
qed

text \<open>
  C3. The claim does not hold of the code. After an empty block at offset \<open>z\<close> and a
  look-ahead that was a false alarm, the stream is at \<open>z + 512\<close>, not at \<open>z\<close>, and
  the block at \<open>z + 512\<close> is already in the buffer. When it is a valid header the skip
  over its content is taken from \<open>z + 512\<close>, the start of the header, and not from
  \<open>z + 1024\<close>, its end: the next read is one block short of the end of the entry. On
  the archive made of an empty block, the entry of a file \<^verbatim>\<open>a\<close> that holds
  \<^verbatim>\<open>"xyz"\<close>, and the terminator, the pass that starts with the empty block goes on
  at offset 1024, which is the content block of the entry (the entry ends at 1536); the
  content block is read as a header and the scan returns \<open>-1\<close>. On the same archive
  without the empty block the scan returns 1024, the offset of the terminator. Both
  revisions behave the same.
\<close>

theorem false_alarm_skips_one_block_short:
  "scan_block (replicate 512 0)
     \<lparr>bytes = replicate 512 0 @ tar_header (bytes_of ''a'') 3 0 @ padded (bytes_of ''xyz'') @ replicate 1024 0,
      offset = 512\<rparr>
     = Continue
       \<lparr>bytes = replicate 512 0 @ tar_header (bytes_of ''a'') 3 0 @ padded (bytes_of ''xyz'') @ replicate 1024 0,
        offset = 1024\<rparr>
   \<and> find_append_position
       \<lparr>bytes = replicate 512 0 @ tar_header (bytes_of ''a'') 3 0 @ padded (bytes_of ''xyz'') @ replicate 1024 0,
        offset = 0\<rparr> = - 1
   \<and> find_append_position
       \<lparr>bytes = tar_header (bytes_of ''a'') 3 0 @ padded (bytes_of ''xyz'') @ replicate 1024 0,
        offset = 0\<rparr> = 1024
   \<and> scan_block_old (replicate 512 0)
     \<lparr>bytes = replicate 512 0 @ tar_header (bytes_of ''a'') 3 0 @ padded (bytes_of ''xyz'') @ replicate 1024 0,
      offset = 512\<rparr>
     = Continue
       \<lparr>bytes = replicate 512 0 @ tar_header (bytes_of ''a'') 3 0 @ padded (bytes_of ''xyz'') @ replicate 1024 0,
        offset = 1024\<rparr>
   \<and> find_append_position_old
       \<lparr>bytes = replicate 512 0 @ tar_header (bytes_of ''a'') 3 0 @ padded (bytes_of ''xyz'') @ replicate 1024 0,
        offset = 0\<rparr> = - 1
   \<and> find_append_position_old
       \<lparr>bytes = tar_header (bytes_of ''a'') 3 0 @ padded (bytes_of ''xyz'') @ replicate 1024 0,
        offset = 0\<rparr> = 1024"
  using zero_block_entry_scan[of "bytes_of ''a''" 0] entry_scan[of "bytes_of ''a''" 0]
  by simp

subsection \<open>C10: the insertion point\<close>




end
